theory Spec2Isabelle
  imports Main "HOL-Library.Monad_Syntax"
begin

section \<open>Library interface\<close>

text \<open>
  The plugin calls Node's \<^verbatim>\<open>path\<close> module, the WHATWG \<^verbatim>\<open>URL\<close> constructor and the
  \<^verbatim>\<open>fs\<close> and \<^verbatim>\<open>crypto\<close> modules. None of them is code of the plugin, and the
  \<^verbatim>\<open>path\<close> functions depend on the platform, so the model takes them as parameters:
  a record of functions that every operation of the plugin receives.  Strings are lists
  of code units; the model covers code units below 256.
\<close>

record path_ops =
  path_basename :: "string \<Rightarrow> string"
  path_basename_ext :: "string \<Rightarrow> string \<Rightarrow> string"
  path_extname :: "string \<Rightarrow> string"
  path_dirname :: "string \<Rightarrow> string"
  path_join :: "string \<Rightarrow> string \<Rightarrow> string"
  path_resolve :: "string \<Rightarrow> string \<Rightarrow> string"
  path_isAbsolute :: "string \<Rightarrow> bool"
  url_href :: "string \<Rightarrow> string \<Rightarrow> string option"
    \<comment> \<open>\<^verbatim>\<open>new URL(rel, base).href\<close>; \<open>None\<close> when the constructor throws\<close>

datatype HashAlgorithm = Sha256 | Sha384 | Sha512

datatype Crossorigin = Anonymous | UseCredentials

datatype EmitTarget = TargetHead | TargetBody

datatype EmitPosition = EmitAbove | EmitBelow

type_synonym TagPlacement = "EmitTarget \<times> EmitPosition"

type_synonym mtime = nat

record filesystem =
  fs_readFile :: "string \<Rightarrow> string option"
  fs_digest :: "HashAlgorithm \<Rightarrow> string \<Rightarrow> string option"
    \<comment> \<open>base64 digest of the file's bytes; \<open>None\<close> when the read stream errors\<close>
  fs_mkdir :: "string \<Rightarrow> bool"
  fs_writeFile :: "string \<Rightarrow> bool"
  fs_stat :: "string \<Rightarrow> mtime option"
  fs_copyFile :: "string \<Rightarrow> string \<Rightarrow> bool"

datatype error =
    OutdirRequired
  | TemplateUnreadable string
  | MetafileMissing
  | InvalidURL
  | IOError

section \<open>Document tree\<close>

record attribute =
  attr_name :: string
  attr_value :: string

datatype node =
    Element string "attribute list" "node list"
  | TextNode string
  | CommentNode string
  | DocumentType string string string

text \<open>The parent back-reference of an element is not part of the model: the plugin
  never reads it.\<close>

fun nodeName :: "node \<Rightarrow> string" where
  "nodeName (Element t as cs) = t"
| "nodeName (TextNode s) = ''#text''"
| "nodeName (CommentNode s) = ''#comment''"
| "nodeName (DocumentType n p s) = ''#documentType''"

fun tagName :: "node \<Rightarrow> string option" where
  "tagName (Element t as cs) = Some t"
| "tagName n = None"

fun attrs :: "node \<Rightarrow> attribute list" where
  "attrs (Element t as cs) = as"
| "attrs n = []"

fun childNodes :: "node \<Rightarrow> node list" where
  "childNodes (Element t as cs) = cs"
| "childNodes n = []"

definition defaultDoctype :: node where
  "defaultDoctype = DocumentType ''html'' [] []"

text \<open>An array read \<^verbatim>\<open>xs[i]\<close>: \<^verbatim>\<open>undefined\<close> outside the array.\<close>

definition at :: "'a list \<Rightarrow> nat \<Rightarrow> 'a option" where
  "at xs i = (if i < length xs then Some (xs ! i) else None)"

fun isElement :: "node option \<Rightarrow> bool" where
  "isElement None = False"
| "isElement (Some n) = (nodeName n \<noteq> ''#comment'' \<and> nodeName n \<noteq> ''#text'')"

definition isTextNode :: "node \<Rightarrow> bool" where
  "isTextNode n = (nodeName n = ''#text'')"

definition isScript :: "node option \<Rightarrow> bool" where
  "isScript n = (isElement n \<and> Option.bind n tagName = Some ''script'')"

definition isLinkOrStyle :: "node option \<Rightarrow> bool" where
  "isLinkOrStyle n = (isElement n \<and>
     (Option.bind n tagName = Some ''style'' \<or> Option.bind n tagName = Some ''link''))"

definition createElement :: "string \<Rightarrow> attribute list \<Rightarrow> node" where
  "createElement t as = Element t as []"

section \<open>Tag synthesis\<close>

record CreateElementOptions =
  basedir :: string
  crossorigin :: "Crossorigin option"
  deferOption :: "bool option"
  integrity :: "HashAlgorithm option"
  outputPath :: string
  publicPath :: "string option"
  useModuleType :: "bool option"

fun crossorigin_string :: "Crossorigin \<Rightarrow> string" where
  "crossorigin_string Anonymous = ''anonymous''"
| "crossorigin_string UseCredentials = ''use-credentials''"

fun algorithm_string :: "HashAlgorithm \<Rightarrow> string" where
  "algorithm_string Sha256 = ''sha256''"
| "algorithm_string Sha384 = ''sha384''"
| "algorithm_string Sha512 = ''sha512''"

text \<open>Truthiness of an optional boolean; an optional string is truthy when it is
  defined and not empty.\<close>

definition truthy_bool :: "bool option \<Rightarrow> bool" where
  "truthy_bool b = (b = Some True)"

definition calculateIntegrityHash ::
  "filesystem \<Rightarrow> string \<Rightarrow> HashAlgorithm \<Rightarrow> error + string" where
  "calculateIntegrityHash fs filePath alg =
     (case fs_digest fs alg filePath of
        None \<Rightarrow> Inl IOError
      | Some d \<Rightarrow> Inr (algorithm_string alg @ ''-'' @ d))"

text \<open>\<^verbatim>\<open>collect\<close> keeps the truthy entries of the attribute array; an entry that the
  source guards with \<^verbatim>\<open>cond && {...}\<close> is \<open>None\<close> when the guard is falsy.\<close>

definition collect :: "'a option list \<Rightarrow> 'a list" where
  "collect vs = List.map_filter id vs"

definition integrity_attr ::
  "filesystem \<Rightarrow> string \<Rightarrow> HashAlgorithm option \<Rightarrow> error + attribute option" where
  "integrity_attr fs absOutputPath alg =
     (case alg of
        None \<Rightarrow> Inr None
      | Some a \<Rightarrow>
          (case calculateIntegrityHash fs absOutputPath a of
             Inl e \<Rightarrow> Inl e
           | Inr h \<Rightarrow> Inr (Some \<lparr>attr_name = ''integrity'', attr_value = h\<rparr>)))"

definition createLinkElement ::
  "path_ops \<Rightarrow> filesystem \<Rightarrow> CreateElementOptions \<Rightarrow> error + node" where
  "createLinkElement P fs opts =
     (let absOutputPath = path_resolve P (basedir opts) (outputPath opts);
          filename = path_basename P absOutputPath;
          url = (case publicPath opts of
                   None \<Rightarrow> filename
                 | Some pp \<Rightarrow> if pp \<noteq> [] then path_join P pp filename else filename)
      in case integrity_attr fs absOutputPath (integrity opts) of
           Inl e \<Rightarrow> Inl e
         | Inr integ \<Rightarrow>
             Inr (createElement ''link'' (collect
               [Some \<lparr>attr_name = ''href'', attr_value = url\<rparr>,
                Some \<lparr>attr_name = ''rel'', attr_value = ''stylesheet''\<rparr>,
                map_option (\<lambda>c. \<lparr>attr_name = ''crossorigin'',
                                  attr_value = crossorigin_string c\<rparr>) (crossorigin opts),
                integ])))"

definition createScriptElement ::
  "path_ops \<Rightarrow> filesystem \<Rightarrow> CreateElementOptions \<Rightarrow> error + node" where
  "createScriptElement P fs opts =
     (let absOutputPath = path_resolve P (basedir opts) (outputPath opts);
          filename = path_basename P absOutputPath;
          url = (case publicPath opts of
                   None \<Rightarrow> filename
                 | Some pp \<Rightarrow> if pp \<noteq> [] then path_join P pp filename else filename)
      in case integrity_attr fs absOutputPath (integrity opts) of
           Inl e \<Rightarrow> Inl e
         | Inr integ \<Rightarrow>
             Inr (createElement ''script'' (collect
               [Some \<lparr>attr_name = ''src'', attr_value = url\<rparr>,
                (if truthy_bool (useModuleType opts)
                 then Some \<lparr>attr_name = ''type'', attr_value = ''module''\<rparr> else None),
                (if \<not> truthy_bool (useModuleType opts) \<and> truthy_bool (deferOption opts)
                 then Some \<lparr>attr_name = ''defer'', attr_value = []\<rparr> else None),
                map_option (\<lambda>c. \<lparr>attr_name = ''crossorigin'',
                                  attr_value = crossorigin_string c\<rparr>) (crossorigin opts),
                integ])))"

section \<open>Tag placement\<close>

text \<open>\<^verbatim>\<open>Array.prototype.findIndex\<close>: the first index whose element satisfies the
  predicate, \<open>-1\<close> when there is none.\<close>

fun findIndex_from :: "('a option \<Rightarrow> bool) \<Rightarrow> 'a list \<Rightarrow> int \<Rightarrow> int" where
  "findIndex_from p [] i = -1"
| "findIndex_from p (x # xs) i = (if p (Some x) then i else findIndex_from p xs (i + 1))"

definition findIndex :: "('a option \<Rightarrow> bool) \<Rightarrow> 'a list \<Rightarrow> int" where
  "findIndex p xs = findIndex_from p xs 0"

text \<open>\<^verbatim>\<open>findLastChildIndex\<close>: the loop counts \<open>i\<close> from the length of the child list
  down to \<open>0\<close>, reads \<^verbatim>\<open>childNodes[i]\<close> and returns \<open>i\<close> at the first hit; after the
  loop it returns \<open>0\<close>.\<close>

fun findLastChildIndex_loop :: "node list \<Rightarrow> (node option \<Rightarrow> bool) \<Rightarrow> nat \<Rightarrow> int" where
  "findLastChildIndex_loop cs p 0 = (if p (at cs 0) then 0 else 0)"
| "findLastChildIndex_loop cs p (Suc i) =
     (if p (at cs (Suc i)) then int (Suc i) else findLastChildIndex_loop cs p i)"

definition findLastChildIndex :: "node list \<Rightarrow> (node option \<Rightarrow> bool) \<Rightarrow> int" where
  "findLastChildIndex cs p = findLastChildIndex_loop cs p (length cs)"

text \<open>\<^verbatim>\<open>xs.splice(start, 0, ...items)\<close>: a negative start counts from the end and is
  clamped at \<open>0\<close>, a start past the end is clamped at the length.\<close>

definition array_splice :: "'a list \<Rightarrow> int \<Rightarrow> 'a list \<Rightarrow> 'a list" where
  "array_splice xs start items =
     (let len = int (length xs);
          actualStart = (if start < 0 then max (len + start) 0 else min start len)
      in take (nat actualStart) xs @ items @ drop (nat actualStart) xs)"

definition linkIndex :: "EmitPosition \<Rightarrow> node list \<Rightarrow> int" where
  "linkIndex linkPosition headChildren =
     (if linkPosition = EmitBelow then findLastChildIndex headChildren isLinkOrStyle + 1
      else findIndex isLinkOrStyle headChildren)"

definition scriptIndex :: "TagPlacement \<Rightarrow> node list \<Rightarrow> int" where
  "scriptIndex scriptPlacement parentChildren =
     (if snd scriptPlacement = EmitBelow then findLastChildIndex parentChildren isScript + 1
      else findIndex isScript parentChildren)"

section \<open>Strings\<close>

text \<open>\<^verbatim>\<open>text.indexOf(pat, start)\<close> for \<open>start \<ge> 0\<close>: the position of the first occurrence
  of \<open>pat\<close> at or after \<open>start\<close>, \<open>-1\<close> when there is none.\<close>

fun indexOf_scan :: "string \<Rightarrow> string \<Rightarrow> nat \<Rightarrow> int" where
  "indexOf_scan pat [] i = (if pat = [] then int i else -1)"
| "indexOf_scan pat (c # cs) i =
     (if take (length pat) (c # cs) = pat then int i else indexOf_scan pat cs (Suc i))"

definition indexOf :: "string \<Rightarrow> string \<Rightarrow> nat \<Rightarrow> int" where
  "indexOf text pat start = indexOf_scan pat (drop start text) (min start (length text))"

definition str_includes :: "string \<Rightarrow> string \<Rightarrow> bool" where
  "str_includes text pat = (indexOf text pat 0 \<ge> 0)"

definition startsWith :: "string \<Rightarrow> string \<Rightarrow> bool" where
  "startsWith text pat = (take (length pat) text = pat)"

text \<open>\<^verbatim>\<open>text.slice(start, end)\<close> and \<^verbatim>\<open>text.slice(start)\<close> for indices \<open>\<ge> 0\<close>.\<close>

definition slice :: "string \<Rightarrow> nat \<Rightarrow> nat \<Rightarrow> string" where
  "slice text start endIdx = take (endIdx - start) (drop start text)"

definition slice_from :: "string \<Rightarrow> nat \<Rightarrow> string" where
  "slice_from text start = drop start text"

text \<open>The characters that the regular expression \<^verbatim>\<open>\s\<close> matches and \<^verbatim>\<open>trim\<close> strips:
  tab, line feed, vertical tab, form feed, carriage return, space, no-break space.
  The test \<^verbatim>\<open>/\s/.test(text[i])\<close> is false on \<^verbatim>\<open>undefined\<close>.\<close>

definition isWhitespaceChar :: "char \<Rightarrow> bool" where
  "isWhitespaceChar c =
     (c \<in> set [CHR 0x09, CHR 0x0A, CHR 0x0B, CHR 0x0C, CHR 0x0D, CHR 0x20, CHR 0xA0])"

fun isSpace :: "char option \<Rightarrow> bool" where
  "isSpace None = False"
| "isSpace (Some c) = isWhitespaceChar c"

definition trim :: "string \<Rightarrow> string" where
  "trim s = rev (dropWhile isWhitespaceChar (rev (dropWhile isWhitespaceChar s)))"

text \<open>\<^verbatim>\<open>text.replace(pat, rep)\<close> with a string pattern: the first occurrence of \<open>pat\<close> is
  replaced; in \<open>rep\<close>, \<^verbatim>\<open>$$\<close> stands for a dollar sign, \<^verbatim>\<open>$&\<close> for the match,
  \<^verbatim>\<open>$`\<close> for the text before it and \<^verbatim>\<open>$'\<close> for the text after it.\<close>

fun getSubstitution :: "string \<Rightarrow> string \<Rightarrow> string \<Rightarrow> string \<Rightarrow> string" where
  "getSubstitution matched pre post [] = []"
| "getSubstitution matched pre post [c] = [c]"
| "getSubstitution matched pre post (c # d # r) =
     (if c \<noteq> CHR ''$'' then c # getSubstitution matched pre post (d # r)
      else if d = CHR ''$'' then CHR ''$'' # getSubstitution matched pre post r
      else if d = CHR ''&'' then matched @ getSubstitution matched pre post r
      else if d = CHR 0x60 then pre @ getSubstitution matched pre post r
      else if d = CHR 0x27 then post @ getSubstitution matched pre post r
      else c # getSubstitution matched pre post (d # r))"

definition replace :: "string \<Rightarrow> string \<Rightarrow> string \<Rightarrow> string" where
  "replace text pat rep =
     (let pos = indexOf text pat 0
      in if pos < 0 then text
         else take (nat pos) text
              @ getSubstitution pat (take (nat pos) text) (drop (nat pos + length pat) text) rep
              @ drop (nat pos + length pat) text)"

section \<open>CSS URL scanner\<close>

fun closingToken :: "char \<Rightarrow> char option" where
  "closingToken c =
     (if c = CHR ''('' then Some (CHR '')'')
      else if c = CHR 0x22 then Some (CHR 0x22)
      else if c = CHR 0x27 then Some (CHR 0x27)
      else None)"

declare closingToken.simps [simp del]

function skipWhitespace_loop :: "string \<Rightarrow> nat \<Rightarrow> nat \<Rightarrow> nat" where
  "skipWhitespace_loop text index offset =
     (if isSpace (at text (index + offset))
      then skipWhitespace_loop text index (Suc offset)
      else offset)"
  by pat_completeness auto
termination
  by (relation "measure (\<lambda>(text, index, offset). length text - (index + offset))")
     (auto simp: at_def split: if_splits)

declare skipWhitespace_loop.simps [simp del]

definition skipWhitespace :: "string \<Rightarrow> nat \<Rightarrow> nat" where
  "skipWhitespace text index = skipWhitespace_loop text index 0"

text \<open>The capturing loop of \<^verbatim>\<open>parseURLs\<close>; its state is \<open>index\<close>, \<^verbatim>\<open>end\<close> and the stack
  (the top is the last element).\<close>

function capture :: "string \<Rightarrow> nat \<Rightarrow> nat \<Rightarrow> char list \<Rightarrow> nat \<times> nat \<times> char list" where
  "capture text index endIdx stack =
     (if stack \<noteq> [] \<and> index < length text
      then (if at text index = closingToken (last stack)
            then capture text (index + skipWhitespace text index + 1) endIdx (butlast stack)
            else capture text (index + 1) (endIdx + 1) stack)
      else (index, endIdx, stack))"
  by pat_completeness auto
termination
  by (relation "measure (\<lambda>(text, index, endIdx, stack). length text - index)") auto

declare capture.simps [simp del]

text \<open>One pass of the outer loop from the found position of \<^verbatim>\<open>url\<close>: the new index,
  the stack, and the captured URL when the opening parenthesis was there.\<close>

definition scan_token :: "string \<Rightarrow> nat \<Rightarrow> char list \<Rightarrow> nat \<times> char list \<times> string option" where
  "scan_token text found stack =
     (let index = found + 3;
          index = index + skipWhitespace text index
      in if at text index \<noteq> Some (CHR ''('') then (index, stack, None)
         else
           let stack = stack @ [CHR ''(''];
               index = index + 1;
               index = index + skipWhitespace text index;
               quoted = (at text index = Some (CHR 0x27) \<or> at text index = Some (CHR 0x22));
               stack = (if quoted then stack @ [text ! index] else stack);
               index = (if quoted then index + 1 else index);
               index = index + skipWhitespace text index;
               start = index;
               (index, endIdx, stack) = capture text index index stack
           in (index, stack, Some (trim (slice text start endIdx))))"

lemma indexOf_scan_bounds:
  "0 \<le> indexOf_scan pat cs i \<Longrightarrow>
     int i \<le> indexOf_scan pat cs i \<and>
     indexOf_scan pat cs i + int (length pat) \<le> int i + int (length cs)"
proof (induction cs arbitrary: i)
  case Nil
  then show ?case by (simp split: if_splits)
next
  case (Cons c cs)
  show ?case
  proof (cases "take (length pat) (c # cs) = pat")
    case True
    have "length (take (length pat) (c # cs)) \<le> length (c # cs)" by simp
    with True have "length pat \<le> length (c # cs)" by simp
    with True show ?thesis by simp
  next
    case False
    with Cons.prems have "0 \<le> indexOf_scan pat cs (Suc i)" by simp
    from Cons.IH [OF this] False show ?thesis by simp
  qed
qed

lemma indexOf_bounds:
  assumes "0 \<le> indexOf t pat start"
  shows "pat \<noteq> [] \<Longrightarrow> int start \<le> indexOf t pat start"
    and "indexOf t pat start + int (length pat) \<le> int (length t)"
proof -
  have b: "int (min start (length t)) \<le> indexOf t pat start \<and>
        indexOf t pat start + int (length pat)
          \<le> int (min start (length t)) + int (length (drop start t))"
    using assms indexOf_scan_bounds [of pat "drop start t" "min start (length t)"]
    by (simp add: indexOf_def)
  then show "indexOf t pat start + int (length pat) \<le> int (length t)"
    by (simp add: min_def split: if_splits)
  show "int start \<le> indexOf t pat start" if ne: "pat \<noteq> []"
  proof (cases "start \<le> length t")
    case True
    with b show ?thesis by simp
  next
    case False
    then have "drop start t = []" by simp
    with assms ne show ?thesis
      by (simp add: indexOf_def split: if_splits)
  qed
qed

lemma capture_index_ge:
  "capture t index endIdx stack = (index', endIdx', stack') \<Longrightarrow> index \<le> index'"
proof (induction t index endIdx stack rule: capture.induct)
  case (1 t index endIdx stack)
  show ?case
  proof (cases "stack \<noteq> [] \<and> index < length t")
    case False
    with "1.prems" show ?thesis by (simp add: capture.simps [of t index])
  next
    case True
    show ?thesis
    proof (cases "at t index = closingToken (last stack)")
      case c: True
      with True "1.prems"
      have "capture t (index + skipWhitespace t index + 1) endIdx (butlast stack)
              = (index', endIdx', stack')"
        by (simp add: capture.simps [of t index])
      from "1.IH"(1) [OF True c this] show ?thesis by simp
    next
      case c: False
      with True "1.prems"
      have "capture t (index + 1) (endIdx + 1) stack = (index', endIdx', stack')"
        by (simp add: capture.simps [of t index])
      from "1.IH"(2) [OF True c this] show ?thesis by simp
    qed
  qed
qed

lemma scan_token_index_ge:
  assumes "scan_token t found stack = (index', stack', u)"
  shows "found + 3 \<le> index'"
  using assms unfolding scan_token_def Let_def
  by (auto split: if_splits prod.splits dest!: capture_index_ge)

function parseURLs_loop :: "string \<Rightarrow> nat \<Rightarrow> char list \<Rightarrow> string list \<Rightarrow> string list" where
  "parseURLs_loop text index stack urls =
     (let found = indexOf text ''url'' index
      in if found > 0
         then (case scan_token text (nat found) stack of
                 (index', stack', u) \<Rightarrow>
                   parseURLs_loop text index' stack'
                     (case u of None \<Rightarrow> urls | Some url \<Rightarrow> urls @ [url]))
         else urls)"
  by pat_completeness auto
termination
proof (relation "measure (\<lambda>(t, index, stack, urls). length t - index)")
  show "wf (measure (\<lambda>(t :: string, index :: nat, stack :: char list, urls :: string list).
          length t - index))"
    by simp
next
  fix t :: string and index :: nat and stack :: "char list" and urls :: "string list"
    and found :: int and index' :: nat and y :: "char list \<times> string option"
    and stack' :: "char list" and u :: "string option"
  assume f: "found = indexOf t ''url'' index" and pos: "0 < found"
    and x: "(index', y) = scan_token t (nat found) stack"
    and y: "(stack', u) = y"
  from f pos have "int index \<le> found" "found + 3 \<le> int (length t)"
    using indexOf_bounds [of t "''url''" index] by simp_all
  moreover from x y have "nat found + 3 \<le> index'"
    using scan_token_index_ge [of t "nat found" stack index' stack' u] by simp
  ultimately show "((t, index', stack',
      case u of None \<Rightarrow> urls | Some url \<Rightarrow> urls @ [url]), t, index, stack, urls)
      \<in> measure (\<lambda>(t, index, stack, urls). length t - index)"
    by simp
qed

declare parseURLs_loop.simps [simp del]

definition parseURLs :: "string \<Rightarrow> string list" where
  "parseURLs text = parseURLs_loop text 0 [] []"

subsection \<open>The scanner with a step budget\<close>

text \<open>The same three loops with a budget: every execution of a loop body takes one
  unit, and a loop that finds the budget empty when it needs a unit returns \<open>None\<close>.
  Every function returns the budget that is left.\<close>

fun skipWhitespace_fuel :: "nat \<Rightarrow> string \<Rightarrow> nat \<Rightarrow> nat \<Rightarrow> (nat \<times> nat) option" where
  "skipWhitespace_fuel fuel text index offset =
     (if isSpace (at text (index + offset))
      then (case fuel of
              0 \<Rightarrow> None
            | Suc fuel' \<Rightarrow> skipWhitespace_fuel fuel' text index (Suc offset))
      else Some (offset, fuel))"

declare skipWhitespace_fuel.simps [simp del]

function capture_fuel ::
  "nat \<Rightarrow> string \<Rightarrow> nat \<Rightarrow> nat \<Rightarrow> char list \<Rightarrow> ((nat \<times> nat \<times> char list) \<times> nat) option" where
  "capture_fuel fuel text index endIdx stack =
     (if stack \<noteq> [] \<and> index < length text
      then (case fuel of
              0 \<Rightarrow> None
            | Suc fuel' \<Rightarrow>
                if at text index = closingToken (last stack)
                then (case skipWhitespace_fuel fuel' text index 0 of
                        None \<Rightarrow> None
                      | Some (offset, fuel'') \<Rightarrow>
                          capture_fuel fuel'' text (index + offset + 1) endIdx (butlast stack))
                else capture_fuel fuel' text (index + 1) (endIdx + 1) stack)
      else Some ((index, endIdx, stack), fuel))"
  by pat_completeness auto
termination
  by (relation "measure (\<lambda>(fuel, text, index, endIdx, stack). length text - index)") auto

declare capture_fuel.simps [simp del]

definition scan_token_fuel ::
  "nat \<Rightarrow> string \<Rightarrow> nat \<Rightarrow> char list \<Rightarrow> ((nat \<times> char list \<times> string option) \<times> nat) option" where
  "scan_token_fuel fuel text found stack =
     do {
       let index = found + 3;
       (offset, fuel) \<leftarrow> skipWhitespace_fuel fuel text index 0;
       let index = index + offset;
       if at text index \<noteq> Some (CHR ''('') then Some ((index, stack, None), fuel)
       else do {
         let stack = stack @ [CHR ''(''];
         let index = index + 1;
         (offset, fuel) \<leftarrow> skipWhitespace_fuel fuel text index 0;
         let index = index + offset;
         let quoted = (at text index = Some (CHR 0x27) \<or> at text index = Some (CHR 0x22));
         let stack = (if quoted then stack @ [text ! index] else stack);
         let index = (if quoted then index + 1 else index);
         (offset, fuel) \<leftarrow> skipWhitespace_fuel fuel text index 0;
         let index = index + offset;
         let start = index;
         ((index, endIdx, stack), fuel) \<leftarrow> capture_fuel fuel text index index stack;
         Some ((index, stack, Some (trim (slice text start endIdx))), fuel)
       }
     }"

lemma skipWhitespace_loop_ge: "offset \<le> skipWhitespace_loop t index offset"
proof (induction t index offset rule: skipWhitespace_loop.induct)
  case (1 t index offset)
  show ?case
  proof (cases "isSpace (at t (index + offset))")
    case True
    from "1.IH" [OF True] True show ?thesis
      by (subst skipWhitespace_loop.simps) simp
  next
    case False
    then show ?thesis by (subst skipWhitespace_loop.simps) simp
  qed
qed

lemma skipWhitespace_fuel_eq:
  "skipWhitespace_fuel fuel t index offset =
     (if skipWhitespace_loop t index offset - offset \<le> fuel
      then Some (skipWhitespace_loop t index offset,
                 fuel - (skipWhitespace_loop t index offset - offset))
      else None)"
proof (induction t index offset arbitrary: fuel rule: skipWhitespace_loop.induct)
  case (1 t index offset)
  show ?case
  proof (cases "isSpace (at t (index + offset))")
    case False
    then show ?thesis
      by (simp add: skipWhitespace_loop.simps [of t index offset]
          skipWhitespace_fuel.simps [of fuel t index offset])
  next
    case True
    have ge: "Suc offset \<le> skipWhitespace_loop t index (Suc offset)"
      by (rule skipWhitespace_loop_ge)
    show ?thesis
    proof (cases fuel)
      case 0
      with True ge show ?thesis
        by (simp add: skipWhitespace_loop.simps [of t index offset]
            skipWhitespace_fuel.simps [of 0 t index offset])
    next
      case (Suc f)
      with True ge "1.IH" [OF True, of f] show ?thesis
        by (auto simp add: skipWhitespace_loop.simps [of t index offset]
            skipWhitespace_fuel.simps [of "Suc f" t index offset])
    qed
  qed
qed

lemma capture_fuel_eq:
  "capture_fuel fuel t index endIdx stack =
     (case capture t index endIdx stack of
        (index', endIdx', stack') \<Rightarrow>
          if index' - index \<le> fuel
          then Some ((index', endIdx', stack'), fuel - (index' - index))
          else None)"
proof (induction t index endIdx stack arbitrary: fuel rule: capture.induct)
  case (1 t index endIdx stack)
  obtain index' endIdx' stack' where
    r: "capture t index endIdx stack = (index', endIdx', stack')"
    by (cases "capture t index endIdx stack") auto
  show ?case
  proof (cases "stack \<noteq> [] \<and> index < length t")
    case False
    then have f: "(stack \<noteq> [] \<and> index < length t) \<longleftrightarrow> False" by blast
    show ?thesis
      by (simp add: capture.simps [of t index] capture_fuel.simps [of fuel t index] f)
  next
    case True
    show ?thesis
    proof (cases "at t index = closingToken (last stack)")
      case c: True
      let ?skip = "skipWhitespace t index"
      from True c r
      have r': "capture t (index + ?skip + 1) endIdx (butlast stack) = (index', endIdx', stack')"
        by (simp add: capture.simps [of t index])
      then have ge: "index + ?skip + 1 \<le> index'" by (rule capture_index_ge)
      show ?thesis
      proof (cases fuel)
        case 0
        with True c r ge show ?thesis
          by (simp add: capture_fuel.simps [of 0 t index])
      next
        case (Suc f)
        show ?thesis
        proof (cases "?skip \<le> f")
          case False
          with True c r ge Suc show ?thesis
            by (simp add: capture_fuel.simps [of "Suc f" t index] skipWhitespace_fuel_eq
                skipWhitespace_def)
        next
          case le: True
          have sk: "skipWhitespace_fuel f t index 0 = Some (?skip, f - ?skip)"
            using le by (simp add: skipWhitespace_fuel_eq skipWhitespace_def)
          from "1.IH"(1) [OF True c, of "f - ?skip"] r'
          have "capture_fuel (f - ?skip) t (index + ?skip + 1) endIdx (butlast stack) =
                  (if index' - (index + ?skip + 1) \<le> f - ?skip
                   then Some ((index', endIdx', stack'),
                              f - ?skip - (index' - (index + ?skip + 1)))
                   else None)"
            by simp
          with True c r ge Suc le sk show ?thesis
            by (auto simp add: capture_fuel.simps [of "Suc f" t index])
        qed
      qed
    next
      case c: False
      from True c r
      have r': "capture t (index + 1) (endIdx + 1) stack = (index', endIdx', stack')"
        by (simp add: capture.simps [of t index])
      then have ge: "index + 1 \<le> index'" by (rule capture_index_ge)
      show ?thesis
      proof (cases fuel)
        case 0
        with True c r ge show ?thesis
          by (simp add: capture_fuel.simps [of 0 t index])
      next
        case (Suc f)
        from "1.IH"(2) [OF True c, of f] r'
        have "capture_fuel f t (index + 1) (endIdx + 1) stack =
                (if index' - (index + 1) \<le> f
                 then Some ((index', endIdx', stack'), f - (index' - (index + 1)))
                 else None)"
          by simp
        with True c r ge Suc show ?thesis
          by (auto simp add: capture_fuel.simps [of "Suc f" t index])
      qed
    qed
  qed
qed

lemma skipWhitespace_fuel_Some:
  "skipWhitespace t index \<le> fuel \<Longrightarrow>
   skipWhitespace_fuel fuel t index 0 = Some (skipWhitespace t index, fuel - skipWhitespace t index)"
  by (simp add: skipWhitespace_fuel_eq skipWhitespace_def)

lemma capture_fuel_Some:
  "capture t index endIdx stack = (index', endIdx', stack') \<Longrightarrow> index' - index \<le> fuel \<Longrightarrow>
   capture_fuel fuel t index endIdx stack = Some ((index', endIdx', stack'), fuel - (index' - index))"
  by (simp add: capture_fuel_eq)

lemma scan_token_no_paren:
  assumes "skipWhitespace t (found + 3) = s1"
    and "at t (found + 3 + s1) \<noteq> Some (CHR ''('')"
  shows "scan_token t found stack = (found + 3 + s1, stack, None)"
  unfolding scan_token_def using assms(2)
  by (simp only: Let_def assms(1) if_True simp_thms)

lemma scan_token_paren:
  assumes "skipWhitespace t (found + 3) = s1"
    and "at t (found + 3 + s1) = Some (CHR ''('')"
    and "skipWhitespace t (found + 3 + s1 + 1) = s2"
    and "(at t (found + 3 + s1 + 1 + s2) = Some (CHR 0x27) \<or>
          at t (found + 3 + s1 + 1 + s2) = Some (CHR 0x22)) = quoted"
    and "skipWhitespace t
           (if quoted then found + 3 + s1 + 1 + s2 + 1 else found + 3 + s1 + 1 + s2) = s3"
    and "capture t
           ((if quoted then found + 3 + s1 + 1 + s2 + 1 else found + 3 + s1 + 1 + s2) + s3)
           ((if quoted then found + 3 + s1 + 1 + s2 + 1 else found + 3 + s1 + 1 + s2) + s3)
           (if quoted then (stack @ [CHR ''('']) @ [t ! (found + 3 + s1 + 1 + s2)]
            else stack @ [CHR ''(''])
         = (j, e, s)"
  shows "scan_token t found stack =
           (j, s, Some (trim (slice t
              ((if quoted then found + 3 + s1 + 1 + s2 + 1 else found + 3 + s1 + 1 + s2) + s3)
              e)))"
  unfolding scan_token_def
  by (simp only: Let_def assms if_False simp_thms prod.case)

lemma scan_token_fuel_no_paren:
  assumes "skipWhitespace_fuel fuel t (found + 3) 0 = Some (s1, f1)"
    and "at t (found + 3 + s1) \<noteq> Some (CHR ''('')"
  shows "scan_token_fuel fuel t found stack = Some ((found + 3 + s1, stack, None), f1)"
  unfolding scan_token_fuel_def using assms(2)
  by (simp only: Let_def assms(1) if_True simp_thms bind.simps prod.case)

lemma scan_token_fuel_paren:
  assumes "skipWhitespace_fuel fuel t (found + 3) 0 = Some (s1, f1)"
    and "at t (found + 3 + s1) = Some (CHR ''('')"
    and "skipWhitespace_fuel f1 t (found + 3 + s1 + 1) 0 = Some (s2, f2)"
    and "(at t (found + 3 + s1 + 1 + s2) = Some (CHR 0x27) \<or>
          at t (found + 3 + s1 + 1 + s2) = Some (CHR 0x22)) = quoted"
    and "skipWhitespace_fuel f2 t
           (if quoted then found + 3 + s1 + 1 + s2 + 1 else found + 3 + s1 + 1 + s2) 0
         = Some (s3, f3)"
    and "capture_fuel f3 t
           ((if quoted then found + 3 + s1 + 1 + s2 + 1 else found + 3 + s1 + 1 + s2) + s3)
           ((if quoted then found + 3 + s1 + 1 + s2 + 1 else found + 3 + s1 + 1 + s2) + s3)
           (if quoted then (stack @ [CHR ''('']) @ [t ! (found + 3 + s1 + 1 + s2)]
            else stack @ [CHR ''(''])
         = Some ((j, e, s), f4)"
  shows "scan_token_fuel fuel t found stack =
           Some ((j, s, Some (trim (slice t
              ((if quoted then found + 3 + s1 + 1 + s2 + 1 else found + 3 + s1 + 1 + s2) + s3)
              e))), f4)"
  unfolding scan_token_fuel_def
  by (simp only: Let_def assms if_False simp_thms bind.simps prod.case)

lemma scan_token_fuel_enough:
  assumes tok: "scan_token t found stack = (index', stack', u)"
    and fuel: "index' - (found + 3) \<le> fuel"
  shows "\<exists>fuel'. scan_token_fuel fuel t found stack = Some ((index', stack', u), fuel') \<and>
           fuel \<le> fuel' + (index' - (found + 3))"
proof -
  define s1 where "s1 = skipWhitespace t (found + 3)"
  have s1: "skipWhitespace t (found + 3) = s1" by (simp add: s1_def)
  show ?thesis
  proof (cases "at t (found + 3 + s1) \<noteq> Some (CHR ''('')")
    case True
    from scan_token_no_paren [OF s1 True, of stack] tok
    have i: "index' = found + 3 + s1" and r: "stack' = stack" "u = None" by simp_all
    with fuel have "s1 \<le> fuel" by simp
    then have "skipWhitespace_fuel fuel t (found + 3) 0 = Some (s1, fuel - s1)"
      unfolding s1_def by (rule skipWhitespace_fuel_Some)
    from scan_token_fuel_no_paren [OF this True, of stack] i r \<open>s1 \<le> fuel\<close>
    show ?thesis by simp
  next
    case False
    then have paren: "at t (found + 3 + s1) = Some (CHR ''('')" by simp
    define s2 where "s2 = skipWhitespace t (found + 3 + s1 + 1)"
    define quoted where
      "quoted \<longleftrightarrow> at t (found + 3 + s1 + 1 + s2) = Some (CHR 0x27) \<or>
                  at t (found + 3 + s1 + 1 + s2) = Some (CHR 0x22)"
    define i3 where
      "i3 = (if quoted then found + 3 + s1 + 1 + s2 + 1 else found + 3 + s1 + 1 + s2)"
    define s3 where "s3 = skipWhitespace t i3"
    define st where
      "st = (if quoted then (stack @ [CHR ''('']) @ [t ! (found + 3 + s1 + 1 + s2)]
             else stack @ [CHR ''(''])"
    obtain j e s where c: "capture t (i3 + s3) (i3 + s3) st = (j, e, s)"
      by (cases "capture t (i3 + s3) (i3 + s3) st") auto
    then have ge: "i3 + s3 \<le> j" by (rule capture_index_ge)
    have s2: "skipWhitespace t (found + 3 + s1 + 1) = s2" by (simp add: s2_def)
    have q: "(at t (found + 3 + s1 + 1 + s2) = Some (CHR 0x27) \<or>
              at t (found + 3 + s1 + 1 + s2) = Some (CHR 0x22)) = quoted"
      by (simp add: quoted_def)
    have s3: "skipWhitespace t i3 = s3" by (simp add: s3_def)
    from scan_token_paren [OF s1 paren s2 q s3 [unfolded i3_def] c [unfolded i3_def st_def]] tok
    have j: "j = index'" and s: "s = stack'"
      and u: "u = Some (trim (slice t (i3 + s3) e))"
      by (simp_all add: i3_def)
    have i3: "found + 3 + s1 + s2 \<le> i3" by (simp add: i3_def)
    let ?f1 = "fuel - s1"
    let ?f2 = "?f1 - s2"
    let ?f3 = "?f2 - s3"
    let ?f4 = "?f3 - (j - (i3 + s3))"
    from fuel j ge i3
    have b1: "s1 \<le> fuel" and b2: "s2 \<le> ?f1" and b3: "s3 \<le> ?f2"
      and b4: "j - (i3 + s3) \<le> ?f3"
      and tot: "fuel \<le> ?f4 + (index' - (found + 3))"
      by linarith+
    have k1: "skipWhitespace_fuel fuel t (found + 3) 0 = Some (s1, ?f1)"
      using b1 unfolding s1_def by (rule skipWhitespace_fuel_Some)
    have k2: "skipWhitespace_fuel ?f1 t (found + 3 + s1 + 1) 0 = Some (s2, ?f2)"
      using b2 unfolding s2_def by (rule skipWhitespace_fuel_Some)
    have k3: "skipWhitespace_fuel ?f2 t i3 0 = Some (s3, ?f3)"
      using b3 unfolding s3_def by (rule skipWhitespace_fuel_Some)
    have k4: "capture_fuel ?f3 t (i3 + s3) (i3 + s3) st = Some ((j, e, s), ?f4)"
      using c b4 by (rule capture_fuel_Some)
    from scan_token_fuel_paren
      [OF k1 paren k2 q k3 [unfolded i3_def] k4 [unfolded i3_def st_def]]
    have "scan_token_fuel fuel t found stack =
            Some ((j, s, Some (trim (slice t (i3 + s3) e))), ?f4)"
      by (simp add: i3_def)
    with j s u tot show ?thesis by blast
  qed
qed

lemma skipWhitespace_fuel_cases:
  obtains (None) "skipWhitespace_fuel fuel t index 0 = None"
  | (Some) "skipWhitespace_fuel fuel t index 0
              = Some (skipWhitespace t index, fuel - skipWhitespace t index)"
  by (cases "skipWhitespace t index \<le> fuel")
     (simp_all add: skipWhitespace_fuel_eq skipWhitespace_def)

lemma capture_fuel_cases:
  obtains (None) "capture_fuel fuel t index endIdx stack = None"
  | (Some) fuel' where
      "capture_fuel fuel t index endIdx stack = Some (capture t index endIdx stack, fuel')"
proof (cases "capture t index endIdx stack")
  case (fields index' endIdx' stack')
  show ?thesis
  proof (cases "index' - index \<le> fuel")
    case True
    with fields have
      "capture_fuel fuel t index endIdx stack =
         Some (capture t index endIdx stack, fuel - (index' - index))"
      by (simp add: capture_fuel_eq)
    then show ?thesis by (rule Some)
  next
    case False
    with fields have "capture_fuel fuel t index endIdx stack = None"
      by (simp add: capture_fuel_eq)
    then show ?thesis by (rule None)
  qed
qed

lemma scan_token_fuel_sound:
  assumes res: "scan_token_fuel fuel t found stack = Some (r, fuel')"
  shows "r = scan_token t found stack"
proof -
  define s1 where "s1 = skipWhitespace t (found + 3)"
  have s1: "skipWhitespace t (found + 3) = s1" by (simp add: s1_def)
  define s2 where "s2 = skipWhitespace t (found + 3 + s1 + 1)"
  have s2: "skipWhitespace t (found + 3 + s1 + 1) = s2" by (simp add: s2_def)
  define quoted where
    "quoted \<longleftrightarrow> at t (found + 3 + s1 + 1 + s2) = Some (CHR 0x27) \<or>
                at t (found + 3 + s1 + 1 + s2) = Some (CHR 0x22)"
  have q: "(at t (found + 3 + s1 + 1 + s2) = Some (CHR 0x27) \<or>
            at t (found + 3 + s1 + 1 + s2) = Some (CHR 0x22)) = quoted"
    by (simp add: quoted_def)
  let ?i3 = "if quoted then found + 3 + s1 + 1 + s2 + 1 else found + 3 + s1 + 1 + s2"
  let ?st = "if quoted then (stack @ [CHR ''('']) @ [t ! (found + 3 + s1 + 1 + s2)]
             else stack @ [CHR ''('']"
  define s3 where "s3 = skipWhitespace t ?i3"
  have s3: "skipWhitespace t ?i3 = s3" by (simp add: s3_def)
  obtain j e s where c: "capture t (?i3 + s3) (?i3 + s3) ?st = (j, e, s)"
    by (cases "capture t (?i3 + s3) (?i3 + s3) ?st") auto
  show ?thesis
  proof (cases rule: skipWhitespace_fuel_cases [of fuel t "found + 3"])
    case None
    have "scan_token_fuel fuel t found stack = None"
      unfolding scan_token_fuel_def by (simp only: Let_def None bind.simps)
    with res show ?thesis by simp
  next
    case Some
    then have k1: "skipWhitespace_fuel fuel t (found + 3) 0 = Some (s1, fuel - s1)"
      by (simp add: s1_def)
    show ?thesis
    proof (cases "at t (found + 3 + s1) \<noteq> Some (CHR ''('')")
      case True
      from scan_token_fuel_no_paren [OF k1 True, of stack]
        scan_token_no_paren [OF s1 True, of stack] res
      show ?thesis by simp
    next
      case False
      then have paren: "at t (found + 3 + s1) = Some (CHR ''('')" by simp
      show ?thesis
      proof (cases rule: skipWhitespace_fuel_cases [of "fuel - s1" t "found + 3 + s1 + 1"])
        case None
        have "scan_token_fuel fuel t found stack = None"
          unfolding scan_token_fuel_def
          by (simp only: Let_def k1 paren None bind.simps prod.case if_False simp_thms)
        with res show ?thesis by simp
      next
        case Some
        then have k2: "skipWhitespace_fuel (fuel - s1) t (found + 3 + s1 + 1) 0
                         = Some (s2, fuel - s1 - s2)"
          by (simp add: s2_def)
        show ?thesis
        proof (cases rule: skipWhitespace_fuel_cases [of "fuel - s1 - s2" t ?i3])
          case None
          have "scan_token_fuel fuel t found stack = None"
            unfolding scan_token_fuel_def
            by (simp only: Let_def k1 paren k2 q None bind.simps prod.case if_False simp_thms)
          with res show ?thesis by simp
        next
          case Some
          then have k3: "skipWhitespace_fuel (fuel - s1 - s2) t ?i3 0
                           = Some (s3, fuel - s1 - s2 - s3)"
            by (simp add: s3_def)
          show ?thesis
          proof (cases rule: capture_fuel_cases
              [of "fuel - s1 - s2 - s3" t "?i3 + s3" "?i3 + s3" ?st])
            case None
            have "scan_token_fuel fuel t found stack = None"
              unfolding scan_token_fuel_def
              by (simp only: Let_def k1 paren k2 q k3 None bind.simps prod.case
                  if_False simp_thms)
            with res show ?thesis by simp
          next
            case (Some f4)
            with c have k4: "capture_fuel (fuel - s1 - s2 - s3) t (?i3 + s3) (?i3 + s3) ?st
                               = Some ((j, e, s), f4)"
              by simp
            from scan_token_fuel_paren [OF k1 paren k2 q k3 k4]
              scan_token_paren [OF s1 paren s2 q s3 c] res
            show ?thesis by simp
          qed
        qed
      qed
    qed
  qed
qed

function parseURLs_loop_fuel ::
  "nat \<Rightarrow> string \<Rightarrow> nat \<Rightarrow> char list \<Rightarrow> string list \<Rightarrow> string list option" where
  "parseURLs_loop_fuel fuel text index stack urls =
     (let found = indexOf text ''url'' index
      in if found > 0
         then (case fuel of
                 0 \<Rightarrow> None
               | Suc fuel' \<Rightarrow>
                   (case scan_token_fuel fuel' text (nat found) stack of
                      None \<Rightarrow> None
                    | Some ((index', stack', u), fuel'') \<Rightarrow>
                        parseURLs_loop_fuel fuel'' text index' stack'
                          (case u of None \<Rightarrow> urls | Some url \<Rightarrow> urls @ [url])))
         else Some urls)"
  by pat_completeness auto
termination
proof (relation "measure (\<lambda>(fuel, t, index, stack, urls). length t - index)")
  show "wf (measure (\<lambda>(fuel :: nat, t :: string, index :: nat, stack :: char list,
          urls :: string list). length t - index))"
    by simp
next
  fix fuel :: nat and t :: string and index :: nat and stack :: "char list"
    and urls :: "string list" and found :: int and fuel' :: nat
    and r :: "(nat \<times> char list \<times> string option) \<times> nat"
    and x :: "nat \<times> char list \<times> string option" and fuel'' :: nat
    and index' :: nat and y :: "char list \<times> string option"
    and stack' :: "char list" and u :: "string option"
  assume f: "found = indexOf t ''url'' index" and pos: "0 < found"
    and "fuel = Suc fuel'"
    and s: "scan_token_fuel fuel' t (nat found) stack = Some r"
    and r: "(x, fuel'') = r" and x: "(index', y) = x" and y: "(stack', u) = y"
  from f pos have "int index \<le> found" "found + 3 \<le> int (length t)"
    using indexOf_bounds [of t "''url''" index] by simp_all
  moreover from s r x y have "scan_token t (nat found) stack = (index', stack', u)"
    using scan_token_fuel_sound [of fuel' t "nat found" stack x fuel''] by simp
  then have "nat found + 3 \<le> index'" by (rule scan_token_index_ge)
  ultimately show "((fuel'', t, index', stack',
      case u of None \<Rightarrow> urls | Some url \<Rightarrow> urls @ [url]), fuel, t, index, stack, urls)
      \<in> measure (\<lambda>(fuel, t, index, stack, urls). length t - index)"
    by simp
qed

declare parseURLs_loop_fuel.simps [simp del]

definition parseURLs_fuel :: "nat \<Rightarrow> string \<Rightarrow> string list option" where
  "parseURLs_fuel fuel text = parseURLs_loop_fuel fuel text 0 [] []"


section \<open>Asset discovery and URL rebasing\<close>

definition isAbsoluteOrURL :: "path_ops \<Rightarrow> string \<Rightarrow> bool" where
  "isAbsoluteOrURL P src =
     (path_isAbsolute P src \<or> str_includes src ''://'' \<or> startsWith src ''data:'')"

record rebased =
  basename :: string
  rebasedURL :: string
  inputPath :: string

definition rebaseAssetURL ::
  "path_ops \<Rightarrow> string \<Rightarrow> string \<Rightarrow> string option \<Rightarrow> error + rebased" where
  "rebaseAssetURL P inputURL templatePath pubPath =
     (let queryPos = indexOf inputURL ''?'' 0;
          hashPos = indexOf inputURL ''#'' 0;
          pathEnd = (if queryPos < 0 then hashPos
                     else if hashPos < 0 then queryPos else min queryPos hashPos);
          url = (if pathEnd < 0 then inputURL else slice inputURL 0 (nat pathEnd));
          base = path_basename P url;
          inPath = path_resolve P (path_dirname P templatePath) url;
          joined = (case pubPath of
                      None \<Rightarrow> Some base
                    | Some pp \<Rightarrow>
                        if pp \<noteq> []
                        then (if str_includes pp ''://'' then url_href P base pp
                              else Some (path_join P pp base))
                        else Some base)
      in case joined of
           None \<Rightarrow> Inl InvalidURL
         | Some r \<Rightarrow>
             Inr \<lparr>basename = base,
                  rebasedURL = (if pathEnd < 0 then r
                                else r @ slice_from inputURL (nat pathEnd)),
                  inputPath = inPath\<rparr>)"

text \<open>The split as the specification words it: the path portion of a URL ends before
  the earliest \<^verbatim>\<open>?\<close> or \<^verbatim>\<open>#\<close> and is the whole URL when there is neither; the suffix
  is the rest.\<close>

definition pathPortion :: "string \<Rightarrow> string" where
  "pathPortion inputURL = takeWhile (\<lambda>c. c \<noteq> CHR ''?'' \<and> c \<noteq> CHR ''#'') inputURL"

definition urlSuffix :: "string \<Rightarrow> string" where
  "urlSuffix inputURL = dropWhile (\<lambda>c. c \<noteq> CHR ''?'' \<and> c \<noteq> CHR ''#'') inputURL"

text \<open>\<^verbatim>\<open>getUrl\<close> finds the first attribute named \<open>href\<close> or \<open>src\<close>; the assignment
  \<^verbatim>\<open>url.value = rebasedURL\<close> changes that attribute of the tag.\<close>

definition isUrlAttr :: "attribute \<Rightarrow> bool" where
  "isUrlAttr a = (attr_name a = ''href'' \<or> attr_name a = ''src'')"

definition getUrl :: "node \<Rightarrow> attribute option" where
  "getUrl n = (if isElement (Some n) then find isUrlAttr (attrs n) else None)"

fun setUrlValue :: "attribute list \<Rightarrow> string \<Rightarrow> attribute list" where
  "setUrlValue [] v = []"
| "setUrlValue (a # as) v =
     (if isUrlAttr a then a\<lparr>attr_value := v\<rparr> # as else a # setUrlValue as v)"

fun setUrl :: "node \<Rightarrow> string \<Rightarrow> node" where
  "setUrl (Element t as cs) v = Element t (setUrlValue as v) cs"
| "setUrl n v = n"

type_synonym asset = "string \<times> string"

text \<open>The body of the loop over the candidate tags: the tag after the pass and the
  pairs pushed to \<^verbatim>\<open>assets\<close>.\<close>

definition rebaseTag ::
  "path_ops \<Rightarrow> string \<Rightarrow> string option \<Rightarrow> string \<Rightarrow> node \<Rightarrow> error + node \<times> asset list" where
  "rebaseTag P templatePath pubPath absOutDir tag =
     (case getUrl tag of
        None \<Rightarrow> Inr (tag, [])
      | Some url \<Rightarrow>
          if isAbsoluteOrURL P (attr_value url) then Inr (tag, [])
          else (case rebaseAssetURL P (attr_value url) templatePath pubPath of
                  Inl e \<Rightarrow> Inl e
                | Inr r \<Rightarrow>
                    Inr (setUrl tag (rebasedURL r),
                         [(inputPath r, path_resolve P absOutDir (basename r))])))"

text \<open>The loop over the children of a parent whose \<^verbatim>\<open>nodeName\<close> is \<open>name\<close>, in document
  order; the other children stay as they are.\<close>

fun rebaseTags ::
  "path_ops \<Rightarrow> string \<Rightarrow> string option \<Rightarrow> string \<Rightarrow> string \<Rightarrow> node list
     \<Rightarrow> error + node list \<times> asset list" where
  "rebaseTags P templatePath pubPath absOutDir name [] = Inr ([], [])"
| "rebaseTags P templatePath pubPath absOutDir name (n # ns) =
     (if nodeName n = name
      then (case rebaseTag P templatePath pubPath absOutDir n of
              Inl e \<Rightarrow> Inl e
            | Inr (n', found) \<Rightarrow>
                (case rebaseTags P templatePath pubPath absOutDir name ns of
                   Inl e \<Rightarrow> Inl e
                 | Inr (ns', rest) \<Rightarrow> Inr (n' # ns', found @ rest)))
      else (case rebaseTags P templatePath pubPath absOutDir name ns of
              Inl e \<Rightarrow> Inl e
            | Inr (ns', rest) \<Rightarrow> Inr (n # ns', rest)))"

text \<open>The loop over the URLs that the scanner found in a style text: \<open>v\<close> is
  \<^verbatim>\<open>text.value\<close>, which every local URL rewrites with \<^verbatim>\<open>replace\<close>.\<close>

fun rebaseStyleURLs ::
  "path_ops \<Rightarrow> string \<Rightarrow> string option \<Rightarrow> string \<Rightarrow> string list \<Rightarrow> string
     \<Rightarrow> error + string \<times> asset list" where
  "rebaseStyleURLs P templatePath pubPath absOutDir [] v = Inr (v, [])"
| "rebaseStyleURLs P templatePath pubPath absOutDir (url # urls) v =
     (if url = [] \<or> isAbsoluteOrURL P url
      then rebaseStyleURLs P templatePath pubPath absOutDir urls v
      else (case rebaseAssetURL P url templatePath pubPath of
              Inl e \<Rightarrow> Inl e
            | Inr r \<Rightarrow>
                (case rebaseStyleURLs P templatePath pubPath absOutDir urls
                        (replace v url (rebasedURL r)) of
                   Inl e \<Rightarrow> Inl e
                 | Inr (v', rest) \<Rightarrow>
                     Inr (v', (inputPath r, path_resolve P absOutDir (basename r)) # rest))))"

definition rebaseStyleText ::
  "path_ops \<Rightarrow> string \<Rightarrow> string option \<Rightarrow> string \<Rightarrow> string \<Rightarrow> error + string \<times> asset list" where
  "rebaseStyleText P templatePath pubPath absOutDir v =
     rebaseStyleURLs P templatePath pubPath absOutDir (parseURLs v) v"

text \<open>The first text child of a style element, and the child list with that text
  replaced.\<close>

fun setFirstText :: "node list \<Rightarrow> string \<Rightarrow> node list" where
  "setFirstText [] v = []"
| "setFirstText (c # cs) v =
     (if isTextNode c then TextNode v # cs else c # setFirstText cs v)"

fun textValue :: "node \<Rightarrow> string" where
  "textValue (TextNode v) = v"
| "textValue n = []"

definition rebaseStyle ::
  "path_ops \<Rightarrow> string \<Rightarrow> string option \<Rightarrow> string \<Rightarrow> node \<Rightarrow> error + node \<times> asset list" where
  "rebaseStyle P templatePath pubPath absOutDir tag =
     (case (if isElement (Some tag) then find isTextNode (childNodes tag) else None) of
        None \<Rightarrow> Inr (tag, [])
      | Some txt \<Rightarrow>
          (case rebaseStyleText P templatePath pubPath absOutDir (textValue txt) of
             Inl e \<Rightarrow> Inl e
           | Inr (v', found) \<Rightarrow>
               (case tag of
                  Element t as cs \<Rightarrow> Inr (Element t as (setFirstText cs v'), found)
                | _ \<Rightarrow> Inr (tag, found))))"

fun rebaseStyles ::
  "path_ops \<Rightarrow> string \<Rightarrow> string option \<Rightarrow> string \<Rightarrow> node list
     \<Rightarrow> error + node list \<times> asset list" where
  "rebaseStyles P templatePath pubPath absOutDir [] = Inr ([], [])"
| "rebaseStyles P templatePath pubPath absOutDir (n # ns) =
     (if nodeName n = ''style''
      then (case rebaseStyle P templatePath pubPath absOutDir n of
              Inl e \<Rightarrow> Inl e
            | Inr (n', found) \<Rightarrow>
                (case rebaseStyles P templatePath pubPath absOutDir ns of
                   Inl e \<Rightarrow> Inl e
                 | Inr (ns', rest) \<Rightarrow> Inr (n' # ns', found @ rest)))
      else (case rebaseStyles P templatePath pubPath absOutDir ns of
              Inl e \<Rightarrow> Inl e
            | Inr (ns', rest) \<Rightarrow> Inr (n # ns', rest)))"

text \<open>Asset discovery of one pass: the links of the head, the scripts of the head, the
  scripts of the body, then the styles of the head.  The result is the children of the
  head and of the body after the rewriting, and the queued pairs in the order of the
  pushes.\<close>

definition discoverAssets ::
  "path_ops \<Rightarrow> bool \<Rightarrow> string \<Rightarrow> string option \<Rightarrow> string \<Rightarrow> node list \<Rightarrow> node list
     \<Rightarrow> error + node list \<times> node list \<times> asset list" where
  "discoverAssets P ignoreAssets templatePath pubPath absOutDir headChildren bodyChildren =
     (if ignoreAssets then Inr (headChildren, bodyChildren, [])
      else
        (case rebaseTags P templatePath pubPath absOutDir ''link'' headChildren of
           Inl e \<Rightarrow> Inl e
         | Inr (head1, a1) \<Rightarrow>
        (case rebaseTags P templatePath pubPath absOutDir ''script'' head1 of
           Inl e \<Rightarrow> Inl e
         | Inr (head2, a2) \<Rightarrow>
        (case rebaseTags P templatePath pubPath absOutDir ''script'' bodyChildren of
           Inl e \<Rightarrow> Inl e
         | Inr (body1, a3) \<Rightarrow>
        (case rebaseStyles P templatePath pubPath absOutDir head2 of
           Inl e \<Rightarrow> Inl e
         | Inr (head3, a4) \<Rightarrow> Inr (head3, body1, a1 @ a2 @ a3 @ a4))))))"

section \<open>The plugin\<close>

record HtmlPluginOptions =
  opt_crossorigin :: "Crossorigin option"
  opt_defer :: "bool option"
  opt_filename :: "string option"
  opt_ignoreAssets :: "bool option"
  opt_integrity :: "HashAlgorithm option"
  opt_linkPosition :: "EmitPosition option"
  opt_scriptPlacement :: "TagPlacement option"
  opt_template :: string

datatype EntryPoints = EntryArray "string list" | EntryRecord "(string \<times> string) list"

record BuildOptions =
  absWorkingDir :: "string option"
  entryPoints :: "EntryPoints option"
  format :: "string option"
  build_publicPath :: "string option"
  outdir :: "string option"

text \<open>The file operations a run issues, in the order of issue.  \<open>WriteFile\<close> carries the
  document that \<^verbatim>\<open>serialize\<close> turns into the file's text.\<close>

datatype fs_op =
    ReadFile string
  | HashFile string
  | Mkdir string
  | WriteFile string "node list"
  | Stat string
  | CopyFile string string

text \<open>What the build-end callback captures from the set-up function.\<close>

record Handler =
  h_basedir :: string
  h_publicPath :: "string option"
  h_absOutDir :: string
  h_useModuleType :: bool
  h_templatePath :: string
  h_entries :: "string list"
  h_templateContent :: string

text \<open>The state that lives as long as the plugin: the output cache (a \<^verbatim>\<open>Set\<close>, kept in
  insertion order) and the map of \<^verbatim>\<open>cachedCopyFile\<close> from input path to the last
  modification time seen.\<close>

record plugin_state =
  outputCache :: "string list"
  copyModified :: "string \<rightharpoonup> mtime"

definition initial_state :: plugin_state where
  "initial_state = \<lparr>outputCache = [], copyModified = Map.empty\<rparr>"

definition entryName :: "path_ops \<Rightarrow> string \<Rightarrow> string" where
  "entryName P entry = path_basename_ext P entry (path_extname P entry)"

text \<open>The set-up function of the plugin: \<open>Inr None\<close> when it returns without
  registering the callback.\<close>

definition pluginSetup ::
  "path_ops \<Rightarrow> filesystem \<Rightarrow> string \<Rightarrow> HtmlPluginOptions \<Rightarrow> BuildOptions
     \<Rightarrow> fs_op list \<times> (error + Handler option)" where
  "pluginSetup P fs cwd options initialOptions =
     (let base = (case absWorkingDir initialOptions of None \<Rightarrow> cwd | Some d \<Rightarrow> d)
      in case entryPoints initialOptions of
           None \<Rightarrow> ([], Inr None)
         | Some eps \<Rightarrow>
             (case outdir initialOptions of
                None \<Rightarrow> ([], Inl OutdirRequired)
              | Some out \<Rightarrow>
                  if out = [] then ([], Inl OutdirRequired)
                  else
                    let absOutDir = path_resolve P base out;
                        useModule = (format initialOptions = Some ''esm'');
                        templatePath = path_resolve P base (opt_template options);
                        entries = (case eps of
                                     EntryArray es \<Rightarrow> map (entryName P) es
                                   | EntryRecord kvs \<Rightarrow> map (entryName P) (map fst kvs))
                    in case fs_readFile fs templatePath of
                         None \<Rightarrow> ([ReadFile templatePath], Inl (TemplateUnreadable templatePath))
                       | Some content \<Rightarrow>
                           ([ReadFile templatePath],
                            Inr (Some \<lparr>h_basedir = base,
                                       h_publicPath = build_publicPath initialOptions,
                                       h_absOutDir = absOutDir,
                                       h_useModuleType = useModule,
                                       h_templatePath = templatePath,
                                       h_entries = entries,
                                       h_templateContent = content\<rparr>))))"

subsection \<open>The document of a pass\<close>

definition findChildElement :: "node list \<Rightarrow> string \<Rightarrow> node option" where
  "findChildElement cs name = find (\<lambda>n. isElement (Some n) \<and> tagName n = Some name) cs"

definition addEmptyElement :: "node list \<Rightarrow> string \<Rightarrow> node list \<times> node" where
  "addEmptyElement cs name = (cs @ [createElement name []], createElement name [])"

definition ensureChildElement :: "node list \<Rightarrow> string \<Rightarrow> node list \<times> node" where
  "ensureChildElement cs name =
     (case findChildElement cs name of
        Some e \<Rightarrow> (cs, e)
      | None \<Rightarrow> addEmptyElement cs name)"

fun replaceChildElement :: "node list \<Rightarrow> string \<Rightarrow> node \<Rightarrow> node list" where
  "replaceChildElement [] name new = []"
| "replaceChildElement (c # cs) name new =
     (if isElement (Some c) \<and> tagName c = Some name then new # cs
      else c # replaceChildElement cs name new)"

text \<open>The children of the document with the doctype added when it is missing, the
  \<open>html\<close> element with its children, and the \<open>head\<close> and \<open>body\<close> elements.\<close>

definition prepareDocument :: "node list \<Rightarrow> node list \<times> node \<times> node list \<times> node \<times> node" where
  "prepareDocument documentChildren =
     (let (docCs, html) = ensureChildElement documentChildren ''html'';
          (htmlCs, head) = ensureChildElement (childNodes html) ''head'';
          (htmlCs, body) = ensureChildElement htmlCs ''body'';
          docCs = (case find (\<lambda>n. nodeName n = ''#documentType'') docCs of
                     None \<Rightarrow> defaultDoctype # docCs
                   | Some d \<Rightarrow> docCs)
      in (docCs, html, htmlCs, head, body))"

text \<open>The document after the head and the body got their new children.\<close>

definition assembleDocument ::
  "node list \<Rightarrow> node \<Rightarrow> node list \<Rightarrow> node \<Rightarrow> node \<Rightarrow> node list \<Rightarrow> node list \<Rightarrow> node list" where
  "assembleDocument docCs html htmlCs head body headChildren bodyChildren =
     replaceChildElement docCs ''html''
       (Element ''html'' (attrs html)
          (replaceChildElement
             (replaceChildElement htmlCs ''head'' (Element ''head'' (attrs head) headChildren))
             ''body'' (Element ''body'' (attrs body) bodyChildren)))"

subsection \<open>Output matching and change detection\<close>

definition endsWith :: "string \<Rightarrow> string \<Rightarrow> bool" where
  "endsWith s pat =
     (length pat \<le> length s \<and> drop (length s - length pat) s = pat)"

definition matchOutputs :: "path_ops \<Rightarrow> string list \<Rightarrow> string list \<Rightarrow> string list" where
  "matchOutputs P entries outputKeys =
     filter (\<lambda>out. path_basename_ext P out (path_extname P out) \<in> set entries) outputKeys"

definition cssOutput :: "path_ops \<Rightarrow> string list \<Rightarrow> string list \<Rightarrow> string list" where
  "cssOutput P entries outputKeys =
     filter (\<lambda>out. endsWith out ''.css'') (matchOutputs P entries outputKeys)"

definition jsOutput :: "path_ops \<Rightarrow> string list \<Rightarrow> string list \<Rightarrow> string list" where
  "jsOutput P entries outputKeys =
     filter (\<lambda>out. endsWith out ''.js'') (matchOutputs P entries outputKeys)"

text \<open>\<^verbatim>\<open>new Set(xs)\<close>: the elements of \<open>xs\<close> in the order of their first occurrence.\<close>

definition newSet :: "string list \<Rightarrow> string list" where
  "newSet xs = rev (remdups (rev xs))"

text \<open>The first loop adds to the cache every current output it does not hold; the
  second deletes from the cache every entry that is not a current output.  Both set
  \<^verbatim>\<open>modified\<close>.\<close>

fun addOutputs :: "string list \<Rightarrow> string list \<Rightarrow> bool \<Rightarrow> string list \<times> bool" where
  "addOutputs [] cache modified = (cache, modified)"
| "addOutputs (out # rest) cache modified =
     (if out \<notin> set cache then addOutputs rest (cache @ [out]) True
      else addOutputs rest cache modified)"

fun deleteOutputs :: "string list \<Rightarrow> string list \<Rightarrow> bool \<Rightarrow> string list \<times> bool" where
  "deleteOutputs [] current modified = ([], modified)"
| "deleteOutputs (out # rest) current modified =
     (if out \<notin> set current then deleteOutputs rest current True
      else (case deleteOutputs rest current modified of
              (kept, m) \<Rightarrow> (out # kept, m)))"

definition detectChanges :: "string list \<Rightarrow> string list \<Rightarrow> string list \<Rightarrow> string list \<times> bool" where
  "detectChanges cache css js =
     (let currentOutputs = newSet (css @ js);
          (cache, modified) = addOutputs currentOutputs cache False
      in deleteOutputs cache currentOutputs modified)"

subsection \<open>Emission\<close>

text \<open>\<^verbatim>\<open>Promise.all\<close> over the results of operations that all have been started: the
  list of the values, or the rejection.\<close>

fun promiseAll :: "(error + 'a) list \<Rightarrow> error + 'a list" where
  "promiseAll [] = Inr []"
| "promiseAll (r # rs) =
     (case r of
        Inl e \<Rightarrow> Inl e
      | Inr x \<Rightarrow> (case promiseAll rs of Inl e \<Rightarrow> Inl e | Inr xs \<Rightarrow> Inr (x # xs)))"

definition elementOptions :: "HtmlPluginOptions \<Rightarrow> Handler \<Rightarrow> string \<Rightarrow> CreateElementOptions" where
  "elementOptions options h filePath =
     \<lparr>basedir = h_basedir h,
      crossorigin = opt_crossorigin options,
      deferOption = opt_defer options,
      integrity = opt_integrity options,
      outputPath = filePath,
      publicPath = h_publicPath h,
      useModuleType = Some (h_useModuleType h)\<rparr>"

text \<open>The reads that computing the integrity hashes of the given outputs starts.\<close>

definition hashReads :: "path_ops \<Rightarrow> HtmlPluginOptions \<Rightarrow> Handler \<Rightarrow> string list \<Rightarrow> fs_op list" where
  "hashReads P options h outs =
     (case opt_integrity options of
        None \<Rightarrow> []
      | Some alg \<Rightarrow> map (\<lambda>out. HashFile (path_resolve P (h_basedir h) out)) outs)"

definition writeHTMLOutput :: "filesystem \<Rightarrow> string \<Rightarrow> string \<Rightarrow> node list \<Rightarrow> fs_op list \<times> bool" where
  "writeHTMLOutput fs absOutDir file document =
     (if fs_mkdir fs absOutDir
      then ([Mkdir absOutDir, WriteFile file document], fs_writeFile fs file)
      else ([Mkdir absOutDir], False))"

text \<open>\<^verbatim>\<open>cachedCopyFile\<close>: the new map, the operations and whether the promise
  resolved.\<close>

definition copyFile ::
  "filesystem \<Rightarrow> (string \<rightharpoonup> mtime) \<Rightarrow> string \<Rightarrow> string
     \<Rightarrow> (string \<rightharpoonup> mtime) \<times> fs_op list \<times> bool" where
  "copyFile fs modified input output =
     (case fs_stat fs input of
        None \<Rightarrow> (modified, [Stat input], False)
      | Some mtimeMs \<Rightarrow>
          if modified input = Some mtimeMs then (modified, [Stat input], True)
          else (modified(input \<mapsto> mtimeMs), [Stat input, CopyFile input output],
                fs_copyFile fs input output))"

fun copyAssets ::
  "filesystem \<Rightarrow> (string \<rightharpoonup> mtime) \<Rightarrow> asset list
     \<Rightarrow> (string \<rightharpoonup> mtime) \<times> fs_op list \<times> bool" where
  "copyAssets fs modified [] = (modified, [], True)"
| "copyAssets fs modified ((input, output) # rest) =
     (case copyFile fs modified input output of
        (m1, ops1, ok1) \<Rightarrow>
          (case copyAssets fs m1 rest of
             (m2, ops2, ok2) \<Rightarrow> (m2, ops1 @ ops2, ok1 \<and> ok2)))"

subsection \<open>The build-end callback\<close>

text \<open>
  One pass: the state after it, the file operations it issued, and its outcome:
  \<open>Inl\<close> the error it threw, \<open>Inr None\<close> the return without emission, \<open>Inr (Some d)\<close>
  the completed emission of the document \<open>d\<close>.  \<open>parse\<close> is the HTML parser and
  \<open>metafile\<close> the keys of \<^verbatim>\<open>metafile.outputs\<close>, \<open>None\<close> when the build result has no
  metafile.  The operations of one \<^verbatim>\<open>Promise.all\<close> are listed in the order of the array.
\<close>

definition onEnd ::
  "path_ops \<Rightarrow> (string \<Rightarrow> node list) \<Rightarrow> filesystem \<Rightarrow> HtmlPluginOptions \<Rightarrow> Handler
     \<Rightarrow> plugin_state \<Rightarrow> string list option
     \<Rightarrow> plugin_state \<times> fs_op list \<times> (error + node list option)" where
  "onEnd P parse fs options h st metafile =
     (case metafile of
        None \<Rightarrow> (st, [], Inl MetafileMissing)
      | Some outputKeys \<Rightarrow>
          (case prepareDocument (parse (h_templateContent h)) of
             (docCs, html, htmlCs, head, body) \<Rightarrow>
          (case discoverAssets P (opt_ignoreAssets options = Some True) (h_templatePath h)
                  (h_publicPath h) (h_absOutDir h) (childNodes head) (childNodes body) of
             Inl e \<Rightarrow> (st, [], Inl e)
           | Inr (headCs, bodyCs, assets) \<Rightarrow>
               let css = cssOutput P (h_entries h) outputKeys;
                   js = jsOutput P (h_entries h) outputKeys;
                   (cache, modified) = detectChanges (outputCache st) css js;
                   st = st\<lparr>outputCache := cache\<rparr>
               in if \<not> modified then (st, [], Inr None)
                  else
                    (case promiseAll (map (\<lambda>filePath.
                            createLinkElement P fs (elementOptions options h filePath)) css) of
                       Inl e \<Rightarrow> (st, hashReads P options h css, Inl e)
                     | Inr links \<Rightarrow>
                    (case promiseAll (map (\<lambda>filePath.
                            createScriptElement P fs (elementOptions options h filePath)) js) of
                       Inl e \<Rightarrow> (st, hashReads P options h css @ hashReads P options h js, Inl e)
                     | Inr scripts \<Rightarrow>
                         let linkPosition =
                               (case opt_linkPosition options of
                                  None \<Rightarrow> EmitBelow | Some p \<Rightarrow> p);
                             scriptPlacement =
                               (case opt_scriptPlacement options of
                                  None \<Rightarrow> (TargetHead, EmitBelow) | Some p \<Rightarrow> p);
                             filename =
                               (case opt_filename options of
                                  None \<Rightarrow> path_basename P (opt_template options)
                                | Some f \<Rightarrow> f);
                             headCs = array_splice headCs (linkIndex linkPosition headCs) links;
                             headCs =
                               (if fst scriptPlacement = TargetHead
                                then array_splice headCs (scriptIndex scriptPlacement headCs)
                                       scripts
                                else headCs);
                             bodyCs =
                               (if fst scriptPlacement = TargetHead then bodyCs
                                else array_splice bodyCs (scriptIndex scriptPlacement bodyCs)
                                       scripts);
                             document =
                               assembleDocument docCs html htmlCs head body headCs bodyCs;
                             (ops1, ok1) =
                               writeHTMLOutput fs (h_absOutDir h)
                                 (path_resolve P (h_absOutDir h) filename) document;
                             (ledger, ops2, ok2) = copyAssets fs (copyModified st) assets
                         in (st\<lparr>copyModified := ledger\<rparr>,
                             hashReads P options h css @ hashReads P options h js @ ops1 @ ops2,
                             if ok1 \<and> ok2 then Inr (Some document) else Inl IOError))))))"

subsection \<open>Runs\<close>

text \<open>A run is a sequence of passes; each pass has its own view of the file system and
  its own build result.  The run returns the state after the last pass and the history:
  the build result and the outcome of every pass, oldest first.\<close>

record pass_input =
  pass_fs :: filesystem
  pass_metafile :: "string list option"

type_synonym history = "(string list option \<times> (error + node list option)) list"

fun run ::
  "path_ops \<Rightarrow> (string \<Rightarrow> node list) \<Rightarrow> HtmlPluginOptions \<Rightarrow> Handler
     \<Rightarrow> plugin_state \<Rightarrow> pass_input list \<Rightarrow> plugin_state \<times> history" where
  "run P parse options h st [] = (st, [])"
| "run P parse options h st (i # rest) =
     (case onEnd P parse (pass_fs i) options h st (pass_metafile i) of
        (st', ops, outcome) \<Rightarrow>
          (case run P parse options h st' rest of
             (st'', hist) \<Rightarrow> (st'', (pass_metafile i, outcome) # hist)))"

text \<open>The matched CSS and JS outputs of a pass.\<close>

definition passOutputs :: "path_ops \<Rightarrow> Handler \<Rightarrow> string list option \<Rightarrow> string list" where
  "passOutputs P h metafile =
     (case metafile of
        None \<Rightarrow> []
      | Some outputKeys \<Rightarrow>
          cssOutput P (h_entries h) outputKeys @ jsOutput P (h_entries h) outputKeys)"

text \<open>A pass completed its emission when its outcome is a document.  A pass reached
  change detection when it did not throw before: for a missing metafile or in asset
  discovery (the only error of asset discovery is the URL constructor's).\<close>

fun completedEmission :: "error + node list option \<Rightarrow> bool" where
  "completedEmission (Inr (Some document)) = True"
| "completedEmission outcome = False"

definition reachedDetection :: "error + node list option \<Rightarrow> bool" where
  "reachedDetection outcome = (outcome \<noteq> Inl MetafileMissing \<and> outcome \<noteq> Inl InvalidURL)"

text \<open>The matched outputs of the most recent pass of a history that satisfies \<open>sel\<close>;
  \<open>start\<close> when there is none.\<close>

fun lastOutputs ::
  "path_ops \<Rightarrow> Handler \<Rightarrow> (error + node list option \<Rightarrow> bool) \<Rightarrow> string list \<Rightarrow> history
     \<Rightarrow> string list" where
  "lastOutputs P h sel start [] = start"
| "lastOutputs P h sel start ((metafile, outcome) # rest) =
     lastOutputs P h sel (if sel outcome then passOutputs P h metafile else start) rest"

definition noEmissionFailed :: "history \<Rightarrow> bool" where
  "noEmissionFailed hist = list_all (\<lambda>(metafile, outcome). outcome \<noteq> Inl IOError) hist"

subsection \<open>What asset discovery promises\<close>

text \<open>The URL of a candidate tag; a tag is a skip tag of the loop over \<open>name\<close> when the
  loop visits it and its URL is classified as skip.\<close>

definition tagUrl :: "node \<Rightarrow> string option" where
  "tagUrl n = map_option attr_value (getUrl n)"

definition skipTag :: "path_ops \<Rightarrow> string \<Rightarrow> node \<Rightarrow> bool" where
  "skipTag P name n =
     (nodeName n = name \<and>
      (case tagUrl n of None \<Rightarrow> False | Some u \<Rightarrow> isAbsoluteOrURL P u))"

text \<open>The local URLs: of the candidate tags that the loop over \<open>name\<close> visits, and of a
  style text.\<close>

definition localTagUrls :: "path_ops \<Rightarrow> string \<Rightarrow> node list \<Rightarrow> string list" where
  "localTagUrls P name cs =
     filter (\<lambda>u. \<not> isAbsoluteOrURL P u)
       (List.map_filter tagUrl (filter (\<lambda>n. nodeName n = name) cs))"

definition localStyleUrls :: "path_ops \<Rightarrow> string \<Rightarrow> string list" where
  "localStyleUrls P v = filter (\<lambda>u. u \<noteq> [] \<and> \<not> isAbsoluteOrURL P u) (parseURLs v)"

text \<open>The pair queued for a local URL.\<close>

definition localAsset :: "path_ops \<Rightarrow> string \<Rightarrow> string \<Rightarrow> string \<Rightarrow> asset" where
  "localAsset P templatePath absOutDir u =
     (path_resolve P (path_dirname P templatePath) (pathPortion u),
      path_resolve P absOutDir (path_basename P (pathPortion u)))"

text \<open>A tag is a local tag of the loop over \<open>name\<close> when the loop visits it and its URL
  is not classified as skip.  What the loop makes of a tag \<open>n\<close>: a local tag comes out
  with its \<open>href\<close> or \<open>src\<close> attribute set to the rebased URL, every other tag comes
  out as it is.\<close>

definition localTag :: "path_ops \<Rightarrow> string \<Rightarrow> node \<Rightarrow> bool" where
  "localTag P name n =
     (nodeName n = name \<and>
      (case tagUrl n of None \<Rightarrow> False | Some u \<Rightarrow> \<not> isAbsoluteOrURL P u))"

definition rebasedTag ::
  "path_ops \<Rightarrow> string \<Rightarrow> string option \<Rightarrow> string \<Rightarrow> node \<Rightarrow> node \<Rightarrow> bool" where
  "rebasedTag P templatePath pubPath name n n' =
     (if localTag P name n
      then (case tagUrl n of
              None \<Rightarrow> False
            | Some u \<Rightarrow>
                (case rebaseAssetURL P u templatePath pubPath of
                   Inl e \<Rightarrow> False
                 | Inr r \<Rightarrow>
                     tagUrl n' = Some (rebasedURL r) \<and> n' = setUrl n (rebasedURL r)))
      else n' = n)"

section \<open>An instance of the library interface\<close>

text \<open>
  The examples need concrete library functions.  This instance agrees with Node on POSIX
  for the paths the examples use: paths without \<^verbatim>\<open>.\<close> and \<^verbatim>\<open>..\<close> segments and without
  a trailing slash, and base URLs that end in a slash.
\<close>

fun collapse_slashes :: "string \<Rightarrow> string" where
  "collapse_slashes (c # d # r) =
     (if c = CHR ''/'' \<and> d = CHR ''/'' then collapse_slashes (d # r)
      else c # collapse_slashes (d # r))"
| "collapse_slashes r = r"

definition posix_basename :: "string \<Rightarrow> string" where
  "posix_basename p = rev (takeWhile (\<lambda>c. c \<noteq> CHR ''/'') (rev p))"

definition posix_extname :: "string \<Rightarrow> string" where
  "posix_extname p =
     (let b = posix_basename p;
          stem = rev (drop 1 (dropWhile (\<lambda>c. c \<noteq> CHR ''.'') (rev b)))
      in if stem = [] then [] else drop (length stem) b)"

definition posix_basename_ext :: "string \<Rightarrow> string \<Rightarrow> string" where
  "posix_basename_ext p ext =
     (let b = posix_basename p
      in if b \<noteq> ext \<and> drop (length b - length ext) b = ext
         then take (length b - length ext) b else b)"

definition posix_dirname :: "string \<Rightarrow> string" where
  "posix_dirname p = rev (drop 1 (dropWhile (\<lambda>c. c \<noteq> CHR ''/'') (rev p)))"

definition posix_join :: "string \<Rightarrow> string \<Rightarrow> string" where
  "posix_join a b = collapse_slashes (a @ ''/'' @ b)"

definition posix_isAbsolute :: "string \<Rightarrow> bool" where
  "posix_isAbsolute p = (take 1 p = ''/'')"

definition posix_resolve :: "string \<Rightarrow> string \<Rightarrow> string" where
  "posix_resolve a b = (if posix_isAbsolute b then b else posix_join a b)"

definition sample_url_href :: "string \<Rightarrow> string \<Rightarrow> string option" where
  "sample_url_href rel base =
     (if indexOf base ''://'' 0 > 0
      then Some (rev (dropWhile (\<lambda>c. c \<noteq> CHR ''/'') (rev base)) @ rel)
      else None)"

definition posix_ops :: path_ops where
  "posix_ops =
     \<lparr>path_basename = posix_basename,
      path_basename_ext = posix_basename_ext,
      path_extname = posix_extname,
      path_dirname = posix_dirname,
      path_join = posix_join,
      path_resolve = posix_resolve,
      path_isAbsolute = posix_isAbsolute,
      url_href = sample_url_href\<rparr>"

definition sample_fs :: filesystem where
  "sample_fs =
     \<lparr>fs_readFile = (\<lambda>p. None),
      fs_digest = (\<lambda>alg p. Some ''47DEQpj8HBSa+/TImW+5JCeuQeRkm5NMpJWZG3hSuFU=''),
      fs_mkdir = (\<lambda>p. True),
      fs_writeFile = (\<lambda>p. True),
      fs_stat = (\<lambda>p. Some 1),
      fs_copyFile = (\<lambda>a b. True)\<rparr>"

text \<open>A parser that returns a fixed document with a style element, and a file system
  on which every write fails.\<close>

definition sample_parse :: "string \<Rightarrow> node list" where
  "sample_parse content =
     [DocumentType ''html'' [] [],
      Element ''html'' []
        [Element ''head'' []
           [Element ''meta'' [\<lparr>attr_name = ''charset'', attr_value = ''utf-8''\<rparr>] [],
            Element ''link'' [\<lparr>attr_name = ''rel'', attr_value = ''icon''\<rparr>,
                             \<lparr>attr_name = ''href'', attr_value = ''img/favicon.png''\<rparr>] []],
         Element ''body'' [] [Element ''div'' [] []]]]"

definition readonly_fs :: filesystem where
  "readonly_fs = sample_fs\<lparr>fs_writeFile := (\<lambda>p. False)\<rparr>"

definition sample_options :: HtmlPluginOptions where
  "sample_options =
     \<lparr>opt_crossorigin = None, opt_defer = None, opt_filename = None,
      opt_ignoreAssets = None, opt_integrity = None, opt_linkPosition = None,
      opt_scriptPlacement = None, opt_template = ''src/index.html''\<rparr>"

definition sample_handler :: Handler where
  "sample_handler =
     \<lparr>h_basedir = ''/proj'', h_publicPath = None, h_absOutDir = ''/proj/dist'',
      h_useModuleType = False, h_templatePath = ''/proj/src/index.html'',
      h_entries = [''main''], h_templateContent = []\<rparr>"

lemmas posix_defs =
  posix_ops_def posix_basename_def posix_extname_def posix_basename_ext_def
  posix_dirname_def posix_join_def posix_isAbsolute_def posix_resolve_def
  sample_url_href_def sample_fs_def

section \<open>Properties of tag synthesis\<close>

lemma integrity_attr_name:
  "integrity_attr fs p alg = Inr (Some a) \<Longrightarrow> attr_name a = ''integrity''"
  by (auto simp: integrity_attr_def split: option.splits sum.splits)

lemma createScriptElement_attrs:
  assumes "createScriptElement P fs opts = Inr el"
  obtains integ where
    "integrity_attr fs (path_resolve P (basedir opts) (outputPath opts)) (integrity opts)
       = Inr integ"
    "attrs el = collect
       [Some \<lparr>attr_name = ''src'',
               attr_value =
                 (case publicPath opts of
                    None \<Rightarrow> path_basename P (path_resolve P (basedir opts) (outputPath opts))
                  | Some pp \<Rightarrow>
                      if pp \<noteq> []
                      then path_join P pp
                             (path_basename P (path_resolve P (basedir opts) (outputPath opts)))
                      else path_basename P (path_resolve P (basedir opts) (outputPath opts)))\<rparr>,
        (if truthy_bool (useModuleType opts)
         then Some \<lparr>attr_name = ''type'', attr_value = ''module''\<rparr> else None),
        (if \<not> truthy_bool (useModuleType opts) \<and> truthy_bool (deferOption opts)
         then Some \<lparr>attr_name = ''defer'', attr_value = []\<rparr> else None),
        map_option (\<lambda>c. \<lparr>attr_name = ''crossorigin'',
                          attr_value = crossorigin_string c\<rparr>) (crossorigin opts),
        integ]"
  using assms
  by (auto simp: createScriptElement_def createElement_def Let_def split: sum.splits)

lemma createLinkElement_attrs:
  assumes "createLinkElement P fs opts = Inr el"
  obtains integ where
    "integrity_attr fs (path_resolve P (basedir opts) (outputPath opts)) (integrity opts)
       = Inr integ"
    "attrs el = collect
       [Some \<lparr>attr_name = ''href'',
               attr_value =
                 (case publicPath opts of
                    None \<Rightarrow> path_basename P (path_resolve P (basedir opts) (outputPath opts))
                  | Some pp \<Rightarrow>
                      if pp \<noteq> []
                      then path_join P pp
                             (path_basename P (path_resolve P (basedir opts) (outputPath opts)))
                      else path_basename P (path_resolve P (basedir opts) (outputPath opts)))\<rparr>,
        Some \<lparr>attr_name = ''rel'', attr_value = ''stylesheet''\<rparr>,
        map_option (\<lambda>c. \<lparr>attr_name = ''crossorigin'',
                          attr_value = crossorigin_string c\<rparr>) (crossorigin opts),
        integ]"
  using assms
  by (auto simp: createLinkElement_def createElement_def Let_def split: sum.splits)

text \<open>
  Claim C5.  Every script element that \<^verbatim>\<open>createScriptElement\<close> returns: when the output
  format is ESM (\<open>useModuleType\<close> is true) its attributes contain \<open>type="module"\<close> and
  no attribute named \<open>defer\<close>, whatever the \<open>defer\<close> option is; when the format is not
  ESM, its attributes named \<open>defer\<close> are exactly \<open>defer=""\<close> if the option is true,
  and none otherwise.
\<close>

theorem script_module_type_excludes_defer:
  assumes "createScriptElement P fs opts = Inr el"
  shows "if useModuleType opts = Some True
         then \<lparr>attr_name = ''type'', attr_value = ''module''\<rparr> \<in> set (attrs el) \<and>
              filter (\<lambda>a. attr_name a = ''defer'') (attrs el) = []
         else filter (\<lambda>a. attr_name a = ''defer'') (attrs el) =
                (if deferOption opts = Some True
                 then [\<lparr>attr_name = ''defer'', attr_value = []\<rparr>] else [])"
proof -
  from assms obtain integ where
    i: "integrity_attr fs (path_resolve P (basedir opts) (outputPath opts)) (integrity opts)
          = Inr integ"
    and a: "attrs el = collect
       [Some \<lparr>attr_name = ''src'',
               attr_value =
                 (case publicPath opts of
                    None \<Rightarrow> path_basename P (path_resolve P (basedir opts) (outputPath opts))
                  | Some pp \<Rightarrow>
                      if pp \<noteq> []
                      then path_join P pp
                             (path_basename P (path_resolve P (basedir opts) (outputPath opts)))
                      else path_basename P (path_resolve P (basedir opts) (outputPath opts)))\<rparr>,
        (if truthy_bool (useModuleType opts)
         then Some \<lparr>attr_name = ''type'', attr_value = ''module''\<rparr> else None),
        (if \<not> truthy_bool (useModuleType opts) \<and> truthy_bool (deferOption opts)
         then Some \<lparr>attr_name = ''defer'', attr_value = []\<rparr> else None),
        map_option (\<lambda>c. \<lparr>attr_name = ''crossorigin'',
                          attr_value = crossorigin_string c\<rparr>) (crossorigin opts),
        integ]"
    by (rule createScriptElement_attrs)
  have n: "\<And>x. integ = Some x \<Longrightarrow> attr_name x = ''integrity''"
    using i integrity_attr_name by blast
  show ?thesis
    unfolding a
    by (cases integ; cases "crossorigin opts")
       (auto simp: collect_def List.map_filter_simps truthy_bool_def dest: n)
qed

theorem script_module_type_excludes_defer_witness:
  "createScriptElement posix_ops sample_fs
     \<lparr>basedir = ''/proj'', crossorigin = Some Anonymous, deferOption = Some True,
      integrity = None, outputPath = ''dist/main.js'', publicPath = None,
      useModuleType = Some True\<rparr>
   = Inr (Element ''script''
        [\<lparr>attr_name = ''src'', attr_value = ''main.js''\<rparr>,
         \<lparr>attr_name = ''type'', attr_value = ''module''\<rparr>,
         \<lparr>attr_name = ''crossorigin'', attr_value = ''anonymous''\<rparr>] []) \<and>
   createScriptElement posix_ops sample_fs
     \<lparr>basedir = ''/proj'', crossorigin = None, deferOption = Some True,
      integrity = None, outputPath = ''dist/main.js'', publicPath = None,
      useModuleType = Some False\<rparr>
   = Inr (Element ''script''
        [\<lparr>attr_name = ''src'', attr_value = ''main.js''\<rparr>,
         \<lparr>attr_name = ''defer'', attr_value = []\<rparr>] [])"
proof -
  let ?esm = "\<lparr>basedir = ''/proj'', crossorigin = Some Anonymous, deferOption = Some True,
      integrity = None, outputPath = ''dist/main.js'', publicPath = None,
      useModuleType = Some True\<rparr>"
  let ?iife = "\<lparr>basedir = ''/proj'', crossorigin = None, deferOption = Some True,
      integrity = None, outputPath = ''dist/main.js'', publicPath = None,
      useModuleType = Some False\<rparr>"
  have a: "createScriptElement posix_ops sample_fs ?esm
   = Inr (Element ''script''
        [\<lparr>attr_name = ''src'', attr_value = ''main.js''\<rparr>,
         \<lparr>attr_name = ''type'', attr_value = ''module''\<rparr>,
         \<lparr>attr_name = ''crossorigin'', attr_value = ''anonymous''\<rparr>] [])"
    by (simp add: createScriptElement_def createElement_def integrity_attr_def collect_def
        List.map_filter_simps truthy_bool_def posix_defs)
  have b: "createScriptElement posix_ops sample_fs ?iife
   = Inr (Element ''script''
        [\<lparr>attr_name = ''src'', attr_value = ''main.js''\<rparr>,
         \<lparr>attr_name = ''defer'', attr_value = []\<rparr>] [])"
    by (simp add: createScriptElement_def createElement_def integrity_attr_def collect_def
        List.map_filter_simps truthy_bool_def posix_defs)
  from script_module_type_excludes_defer [OF a] script_module_type_excludes_defer [OF b] a b
  show ?thesis by simp
qed

text \<open>
  Claim C10.  With a configured (non-empty) \<open>publicPath\<close>, the \<open>href\<close> of every synthesized
  link element and the \<open>src\<close> of every synthesized script element is
  \<^verbatim>\<open>path.join(publicPath, basename)\<close> of the resolved output path, whatever the public
  path looks like: tag synthesis never calls the URL constructor, also when the public
  path contains \<^verbatim>\<open>://\<close>.
\<close>

theorem synthesized_url_is_path_join:
  assumes "publicPath opts = Some pp" and "pp \<noteq> []"
    and "createLinkElement P fs opts = Inr link"
    and "createScriptElement P fs opts = Inr script"
  shows "filter (\<lambda>a. attr_name a = ''href'') (attrs link) =
           [\<lparr>attr_name = ''href'',
             attr_value = path_join P pp
               (path_basename P (path_resolve P (basedir opts) (outputPath opts)))\<rparr>] \<and>
         filter (\<lambda>a. attr_name a = ''src'') (attrs script) =
           [\<lparr>attr_name = ''src'',
             attr_value = path_join P pp
               (path_basename P (path_resolve P (basedir opts) (outputPath opts)))\<rparr>]"
proof -
  let ?abs = "path_resolve P (basedir opts) (outputPath opts)"
  from assms(3) obtain il where
    il: "integrity_attr fs ?abs (integrity opts) = Inr il"
    and l: "attrs link = collect
       [Some \<lparr>attr_name = ''href'',
               attr_value =
                 (case publicPath opts of
                    None \<Rightarrow> path_basename P ?abs
                  | Some pp \<Rightarrow>
                      if pp \<noteq> [] then path_join P pp (path_basename P ?abs)
                      else path_basename P ?abs)\<rparr>,
        Some \<lparr>attr_name = ''rel'', attr_value = ''stylesheet''\<rparr>,
        map_option (\<lambda>c. \<lparr>attr_name = ''crossorigin'',
                          attr_value = crossorigin_string c\<rparr>) (crossorigin opts),
        il]"
    by (rule createLinkElement_attrs)
  from assms(4) obtain isc where
    isc: "integrity_attr fs ?abs (integrity opts) = Inr isc"
    and s: "attrs script = collect
       [Some \<lparr>attr_name = ''src'',
               attr_value =
                 (case publicPath opts of
                    None \<Rightarrow> path_basename P ?abs
                  | Some pp \<Rightarrow>
                      if pp \<noteq> [] then path_join P pp (path_basename P ?abs)
                      else path_basename P ?abs)\<rparr>,
        (if truthy_bool (useModuleType opts)
         then Some \<lparr>attr_name = ''type'', attr_value = ''module''\<rparr> else None),
        (if \<not> truthy_bool (useModuleType opts) \<and> truthy_bool (deferOption opts)
         then Some \<lparr>attr_name = ''defer'', attr_value = []\<rparr> else None),
        map_option (\<lambda>c. \<lparr>attr_name = ''crossorigin'',
                          attr_value = crossorigin_string c\<rparr>) (crossorigin opts),
        isc]"
    by (rule createScriptElement_attrs)
  have n: "\<And>x. il = Some x \<Longrightarrow> attr_name x = ''integrity''"
    "\<And>x. isc = Some x \<Longrightarrow> attr_name x = ''integrity''"
    using il isc integrity_attr_name by blast+
  have "filter (\<lambda>a. attr_name a = ''href'') (attrs link) =
           [\<lparr>attr_name = ''href'', attr_value = path_join P pp (path_basename P ?abs)\<rparr>]"
    unfolding l using assms(1,2)
    by (cases il; cases "crossorigin opts")
       (auto simp: collect_def List.map_filter_simps dest: n)
  moreover
  have "filter (\<lambda>a. attr_name a = ''src'') (attrs script) =
           [\<lparr>attr_name = ''src'', attr_value = path_join P pp (path_basename P ?abs)\<rparr>]"
    unfolding s using assms(1,2)
    by (cases isc; cases "crossorigin opts")
       (auto simp: collect_def List.map_filter_simps dest: n)
  ultimately show ?thesis by simp
qed

theorem synthesized_url_is_path_join_witness:
  "createLinkElement posix_ops sample_fs
     \<lparr>basedir = ''/proj'', crossorigin = None, deferOption = None,
      integrity = None, outputPath = ''dist/main.css'',
      publicPath = Some ''https://cdn.example.com/'', useModuleType = Some False\<rparr>
   = Inr (Element ''link''
        [\<lparr>attr_name = ''href'', attr_value = ''https:/cdn.example.com/main.css''\<rparr>,
         \<lparr>attr_name = ''rel'', attr_value = ''stylesheet''\<rparr>] []) \<and>
   createScriptElement posix_ops sample_fs
     \<lparr>basedir = ''/proj'', crossorigin = None, deferOption = None,
      integrity = None, outputPath = ''dist/main.css'',
      publicPath = Some ''https://cdn.example.com/'', useModuleType = Some False\<rparr>
   = Inr (Element ''script''
        [\<lparr>attr_name = ''src'', attr_value = ''https:/cdn.example.com/main.css''\<rparr>] [])"
proof -
  let ?o = "\<lparr>basedir = ''/proj'', crossorigin = None, deferOption = None,
      integrity = None, outputPath = ''dist/main.css'',
      publicPath = Some ''https://cdn.example.com/'', useModuleType = Some False\<rparr>"
  have a: "createLinkElement posix_ops sample_fs ?o
   = Inr (Element ''link''
        [\<lparr>attr_name = ''href'', attr_value = ''https:/cdn.example.com/main.css''\<rparr>,
         \<lparr>attr_name = ''rel'', attr_value = ''stylesheet''\<rparr>] [])"
    by (simp add: createLinkElement_def createElement_def integrity_attr_def collect_def
        List.map_filter_simps truthy_bool_def posix_defs)
  have b: "createScriptElement posix_ops sample_fs ?o
   = Inr (Element ''script''
        [\<lparr>attr_name = ''src'', attr_value = ''https:/cdn.example.com/main.css''\<rparr>] [])"
    by (simp add: createScriptElement_def createElement_def integrity_attr_def collect_def
        List.map_filter_simps truthy_bool_def posix_defs)
  have p: "publicPath ?o = Some ''https://cdn.example.com/''"
    and q: "''https://cdn.example.com/'' \<noteq> []" by simp_all
  from synthesized_url_is_path_join [OF p q a b] a b show ?thesis by simp
qed

section \<open>Properties of tag placement\<close>

text \<open>
  Claim C2.  The claim says that in a parent without a tag of the relevant kind both
  policies give insertion index 0.  The code gives other indices.  In a head whose
  children are a \<open>meta\<close> and a \<open>title\<close> element, \<open>below\<close> computes index 1
  (\<^verbatim>\<open>findLastChildIndex\<close> returns 0 for "not found", and the caller adds 1) and \<open>above\<close>
  computes index -1 (the result of \<^verbatim>\<open>findIndex\<close> for "not found"), which \<^verbatim>\<open>splice\<close>
  reads as "before the last child": under both policies the new tag lands between
  \<open>meta\<close> and \<open>title\<close>, not at the start.  The same holds for scripts.
\<close>

theorem placement_without_existing_tags_not_at_start:
  "linkIndex EmitBelow [Element ''meta'' [] [], Element ''title'' [] []] = 1 \<and>
   linkIndex EmitAbove [Element ''meta'' [] [], Element ''title'' [] []] = -1 \<and>
   array_splice [Element ''meta'' [] [], Element ''title'' [] []]
     (linkIndex EmitBelow [Element ''meta'' [] [], Element ''title'' [] []])
     [Element ''link'' [] []]
     = [Element ''meta'' [] [], Element ''link'' [] [], Element ''title'' [] []] \<and>
   array_splice [Element ''meta'' [] [], Element ''title'' [] []]
     (linkIndex EmitAbove [Element ''meta'' [] [], Element ''title'' [] []])
     [Element ''link'' [] []]
     = [Element ''meta'' [] [], Element ''link'' [] [], Element ''title'' [] []] \<and>
   scriptIndex (TargetHead, EmitBelow) [Element ''meta'' [] [], Element ''title'' [] []] = 1 \<and>
   scriptIndex (TargetBody, EmitAbove) [Element ''div'' [] [], Element ''p'' [] []] = -1"
  by (simp add: linkIndex_def scriptIndex_def findLastChildIndex_def findIndex_def
      array_splice_def at_def isLinkOrStyle_def isScript_def)

section \<open>Properties of the CSS URL scanner\<close>

text \<open>
  Claim C3.  The claim says that scanning
  \<^verbatim>\<open>background: url( 'a/b.png' ) , url(c.png)\<close> gives \<^verbatim>\<open>a/b.png\<close> and \<^verbatim>\<open>c.png\<close>.
  The code gives \<^verbatim>\<open>a/b.png'\<close> (with the closing quote) and \<^verbatim>\<open>c.png\<close>: the capturing loop
  counts in \<^verbatim>\<open>end\<close> every character that is not a closing token, so the space between
  the closing quote and the closing parenthesis moves \<^verbatim>\<open>end\<close> past the quote.
\<close>

theorem parseURLs_spec_example_keeps_quote:
  "parseURLs (''background: url( '' @ [CHR 0x27] @ ''a/b.png'' @ [CHR 0x27]
               @ '' ) , url(c.png)'')
   = [''a/b.png'' @ [CHR 0x27], ''c.png'']"
  by code_simp

lemma skipWhitespace_loop_le:
  "index + skipWhitespace_loop t index offset \<le> max (length t) (index + offset)"
proof (induction t index offset rule: skipWhitespace_loop.induct)
  case (1 t index offset)
  show ?case
  proof (cases "isSpace (at t (index + offset))")
    case True
    then have "index + offset < length t"
      by (simp add: at_def split: if_splits)
    with "1.IH" [OF True] True show ?thesis
      by (subst skipWhitespace_loop.simps) simp
  next
    case False
    then show ?thesis by (subst skipWhitespace_loop.simps) simp
  qed
qed

lemma skipWhitespace_le:
  "index \<le> length t \<Longrightarrow> index + skipWhitespace t index \<le> length t"
  using skipWhitespace_loop_le [of index t 0] by (simp add: skipWhitespace_def)

lemma skipWhitespace_nonspace:
  "\<not> isSpace (at t index) \<Longrightarrow> skipWhitespace t index = 0"
  by (simp add: skipWhitespace_def skipWhitespace_loop.simps [of t index 0])

lemma closingToken_not_space: "\<not> isSpace (closingToken c)"
  by (simp add: closingToken.simps isWhitespaceChar_def)

lemma capture_index_le:
  "capture t index endIdx stack = (index', endIdx', stack') \<Longrightarrow> index \<le> length t
     \<Longrightarrow> index' \<le> length t"
proof (induction t index endIdx stack rule: capture.induct)
  case (1 t index endIdx stack)
  show ?case
  proof (cases "stack \<noteq> [] \<and> index < length t")
    case False
    then have f: "(stack \<noteq> [] \<and> index < length t) \<longleftrightarrow> False" by blast
    from "1.prems" show ?thesis by (simp add: capture.simps [of t index] f)
  next
    case True
    show ?thesis
    proof (cases "at t index = closingToken (last stack)")
      case c: True
      then have "skipWhitespace t index = 0"
        by (simp add: skipWhitespace_nonspace closingToken_not_space)
      with True c "1.prems"
      have "capture t (index + skipWhitespace t index + 1) endIdx (butlast stack)
              = (index', endIdx', stack')"
        and "index + skipWhitespace t index + 1 \<le> length t"
        by (simp_all add: capture.simps [of t index])
      then show ?thesis by (rule "1.IH"(1) [OF True c])
    next
      case c: False
      with True "1.prems"
      have "capture t (index + 1) (endIdx + 1) stack = (index', endIdx', stack')"
        and "index + 1 \<le> length t"
        by (simp_all add: capture.simps [of t index])
      then show ?thesis by (rule "1.IH"(2) [OF True c])
    qed
  qed
qed

lemma at_Some_less: "at t i = Some c \<Longrightarrow> i < length t"
  by (simp add: at_def split: if_splits)

lemma scan_token_index_le:
  assumes tok: "scan_token t found stack = (index', stack', u)"
    and le: "found + 3 \<le> length t"
  shows "index' \<le> length t"
proof -
  define s1 where "s1 = skipWhitespace t (found + 3)"
  have s1: "skipWhitespace t (found + 3) = s1" by (simp add: s1_def)
  have l1: "found + 3 + s1 \<le> length t"
    unfolding s1_def using le by (rule skipWhitespace_le)
  show ?thesis
  proof (cases "at t (found + 3 + s1) \<noteq> Some (CHR ''('')")
    case True
    from scan_token_no_paren [OF s1 True, of stack] tok l1 show ?thesis by simp
  next
    case False
    then have paren: "at t (found + 3 + s1) = Some (CHR ''('')" by simp
    define s2 where "s2 = skipWhitespace t (found + 3 + s1 + 1)"
    have s2: "skipWhitespace t (found + 3 + s1 + 1) = s2" by (simp add: s2_def)
    from paren have "found + 3 + s1 + 1 \<le> length t"
      using at_Some_less [of t "found + 3 + s1"] by simp
    then have l2: "found + 3 + s1 + 1 + s2 \<le> length t"
      unfolding s2_def by (rule skipWhitespace_le)
    define quoted where
      "quoted \<longleftrightarrow> at t (found + 3 + s1 + 1 + s2) = Some (CHR 0x27) \<or>
                  at t (found + 3 + s1 + 1 + s2) = Some (CHR 0x22)"
    have q: "(at t (found + 3 + s1 + 1 + s2) = Some (CHR 0x27) \<or>
              at t (found + 3 + s1 + 1 + s2) = Some (CHR 0x22)) = quoted"
      by (simp add: quoted_def)
    let ?i3 = "if quoted then found + 3 + s1 + 1 + s2 + 1 else found + 3 + s1 + 1 + s2"
    let ?st = "if quoted then (stack @ [CHR ''('']) @ [t ! (found + 3 + s1 + 1 + s2)]
               else stack @ [CHR ''('']"
    have l3: "?i3 \<le> length t"
      using l2 at_Some_less [of t "found + 3 + s1 + 1 + s2"]
      by (auto simp add: quoted_def)
    define s3 where "s3 = skipWhitespace t ?i3"
    have s3: "skipWhitespace t ?i3 = s3" by (simp add: s3_def)
    have l4: "?i3 + s3 \<le> length t"
      unfolding s3_def using l3 by (rule skipWhitespace_le)
    obtain j e s where c: "capture t (?i3 + s3) (?i3 + s3) ?st = (j, e, s)"
      by (cases "capture t (?i3 + s3) (?i3 + s3) ?st") auto
    from c l4 have "j \<le> length t" by (rule capture_index_le)
    with scan_token_paren [OF s1 paren s2 q s3 c] tok show ?thesis by simp
  qed
qed

lemma parseURLs_loop_fuel_enough:
  "length t - index \<le> fuel \<Longrightarrow>
     parseURLs_loop_fuel fuel t index stack urls = Some (parseURLs_loop t index stack urls)"
proof (induction t index stack urls arbitrary: fuel rule: parseURLs_loop.induct)
  case (1 t index stack urls)
  define found where "found = indexOf t ''url'' index"
  show ?case
  proof (cases "found > 0")
    case False
    then show ?thesis
      by (simp add: parseURLs_loop.simps [of t index] parseURLs_loop_fuel.simps [of fuel t index]
          found_def)
  next
    case True
    then have b: "int index \<le> found" "found + 3 \<le> int (length t)"
      using indexOf_bounds [of t "''url''" index] by (simp_all add: found_def)
    obtain index' stack' u where
      tok: "scan_token t (nat found) stack = (index', stack', u)"
      by (cases "scan_token t (nat found) stack") auto
    from tok have ge: "nat found + 3 \<le> index'" by (rule scan_token_index_ge)
    from tok b True have le: "index' \<le> length t"
      by (intro scan_token_index_le [OF tok]) simp
    from b "1.prems" True obtain f where fuel: "fuel = Suc f" by (cases fuel) auto
    with b "1.prems" le True have "index' - (nat found + 3) \<le> f" by simp
    from scan_token_fuel_enough [OF tok this] obtain f' where
      sf: "scan_token_fuel f t (nat found) stack = Some ((index', stack', u), f')"
      and f': "f \<le> f' + (index' - (nat found + 3))"
      by blast
    from f' fuel b "1.prems" ge le True have "length t - index' \<le> f'" by simp
    from "1.IH" [OF found_def True tok [symmetric] refl this]
    have "parseURLs_loop_fuel f' t index' stack'
            (case u of None \<Rightarrow> urls | Some url \<Rightarrow> urls @ [url])
          = Some (parseURLs_loop t index' stack'
            (case u of None \<Rightarrow> urls | Some url \<Rightarrow> urls @ [url]))" .
    with True tok sf fuel show ?thesis
      by (simp add: parseURLs_loop.simps [of t index]
          parseURLs_loop_fuel.simps [of "Suc f" t index] found_def [symmetric])
  qed
qed

text \<open>
  Claim C8.  The scanner returns on every input string, and the three loops of the
  scanner together run at most as many loop bodies as the input has characters: run with
  a budget of \<open>length text\<close> steps, the budgeted scanner does not run out and returns
  what \<^verbatim>\<open>parseURLs\<close> returns.  No operation of the scanner throws: a read outside the
  string is \<^verbatim>\<open>undefined\<close> (\<open>None\<close> in \<open>at\<close>), which is neither white space nor a
  token, so the model has no error value to return.
\<close>

theorem parseURLs_terminates_within_length:
  "parseURLs_fuel (length text) text = Some (parseURLs text)"
  by (simp add: parseURLs_fuel_def parseURLs_def parseURLs_loop_fuel_enough)

section \<open>Properties of URL rebasing\<close>

lemma indexOf_scan_char:
  "indexOf_scan [c] xs i =
     (if c \<in> set xs then int i + int (length (takeWhile (\<lambda>x. x \<noteq> c) xs)) else -1)"
  by (induction xs arbitrary: i) auto

lemma indexOf_char:
  "indexOf xs [c] 0 =
     (if c \<in> set xs then int (length (takeWhile (\<lambda>x. x \<noteq> c) xs)) else -1)"
  by (simp add: indexOf_def indexOf_scan_char)

lemma length_takeWhile_both:
  "length (takeWhile (\<lambda>x. x \<noteq> a \<and> x \<noteq> b) xs) =
     min (length (takeWhile (\<lambda>x. x \<noteq> a) xs)) (length (takeWhile (\<lambda>x. x \<noteq> b) xs))"
  by (induction xs) auto

lemma takeWhile_absent: "c \<notin> set xs \<Longrightarrow> takeWhile (\<lambda>x. x \<noteq> c) xs = xs"
  by (induction xs) auto

lemma split_at_pathEnd:
  fixes inputURL :: string
  defines "queryPos \<equiv> indexOf inputURL ''?'' 0"
    and "hashPos \<equiv> indexOf inputURL ''#'' 0"
  defines "pathEnd \<equiv> (if queryPos < 0 then hashPos
                     else if hashPos < 0 then queryPos else min queryPos hashPos)"
  shows "(if pathEnd < 0 then inputURL else slice inputURL 0 (nat pathEnd)) = pathPortion inputURL"
    and "(if pathEnd < 0 then r else r @ slice_from inputURL (nat pathEnd)) = r @ urlSuffix inputURL"
proof -
  let ?q = "length (takeWhile (\<lambda>x. x \<noteq> CHR ''?'') inputURL)"
  let ?h = "length (takeWhile (\<lambda>x. x \<noteq> CHR ''#'') inputURL)"
  let ?p = "\<lambda>c. c \<noteq> CHR ''?'' \<and> c \<noteq> CHR ''#''"
  have len: "length (takeWhile ?p inputURL) = min ?q ?h"
    by (rule length_takeWhile_both)
  have tk: "take (length (takeWhile ?p inputURL)) inputURL = takeWhile ?p inputURL"
    by (simp add: takeWhile_eq_take [symmetric])
  have dr: "drop (length (takeWhile ?p inputURL)) inputURL = dropWhile ?p inputURL"
    by (simp add: dropWhile_eq_drop [symmetric])
  have lq: "?q \<le> length inputURL" and lh: "?h \<le> length inputURL"
    by (simp_all add: length_takeWhile_le)
  consider (none) "CHR ''?'' \<notin> set inputURL" "CHR ''#'' \<notin> set inputURL"
    | (some) "CHR ''?'' \<in> set inputURL \<or> CHR ''#'' \<in> set inputURL" by blast
  then have "(if pathEnd < 0 then inputURL else slice inputURL 0 (nat pathEnd)) = pathPortion inputURL
    \<and> (if pathEnd < 0 then r else r @ slice_from inputURL (nat pathEnd)) = r @ urlSuffix inputURL"
  proof cases
    case none
    then have pe: "pathEnd = -1"
      by (simp add: pathEnd_def queryPos_def hashPos_def indexOf_char)
    from none have all: "\<forall>x \<in> set inputURL. ?p x" by auto
    then have tw: "takeWhile ?p inputURL = inputURL" and dw: "dropWhile ?p inputURL = []"
      by simp_all
    show ?thesis unfolding pathPortion_def urlSuffix_def tw dw pe by simp
  next
    case some
    have "pathEnd = int (min ?q ?h)"
    proof (cases "CHR ''?'' \<in> set inputURL")
      case q: True
      show ?thesis
      proof (cases "CHR ''#'' \<in> set inputURL")
        case True
        with q show ?thesis
          by (simp add: pathEnd_def queryPos_def hashPos_def indexOf_char)
      next
        case False
        then have "?h = length inputURL" by (simp add: takeWhile_absent)
        with q False lq show ?thesis
          by (simp add: pathEnd_def queryPos_def hashPos_def indexOf_char)
      qed
    next
      case q: False
      with some have h: "CHR ''#'' \<in> set inputURL" by simp
      from q have "?q = length inputURL" by (simp add: takeWhile_absent)
      with q h lh show ?thesis
        by (simp add: pathEnd_def queryPos_def hashPos_def indexOf_char)
    qed
    with len have "pathEnd = int (length (takeWhile ?p inputURL))" by simp
    with tk dr show ?thesis
      by (simp add: pathPortion_def urlSuffix_def slice_def slice_from_def)
  qed
  then show "(if pathEnd < 0 then inputURL else slice inputURL 0 (nat pathEnd)) = pathPortion inputURL"
    and "(if pathEnd < 0 then r else r @ slice_from inputURL (nat pathEnd)) = r @ urlSuffix inputURL"
    by simp_all
qed

lemma rebaseAssetURL_eq:
  "rebaseAssetURL P inputURL templatePath pubPath =
     (case (case pubPath of
              None \<Rightarrow> Some (path_basename P (pathPortion inputURL))
            | Some pp \<Rightarrow>
                if pp = [] then Some (path_basename P (pathPortion inputURL))
                else if str_includes pp ''://''
                     then url_href P (path_basename P (pathPortion inputURL)) pp
                     else Some (path_join P pp (path_basename P (pathPortion inputURL)))) of
        None \<Rightarrow> Inl InvalidURL
      | Some joined \<Rightarrow>
          Inr \<lparr>basename = path_basename P (pathPortion inputURL),
               rebasedURL = joined @ urlSuffix inputURL,
               inputPath = path_resolve P (path_dirname P templatePath) (pathPortion inputURL)\<rparr>)"
  unfolding rebaseAssetURL_def Let_def split_at_pathEnd
  by (simp split: option.splits)

text \<open>
  Claim C6.  \<^verbatim>\<open>rebaseAssetURL\<close> splits the URL before the earliest \<^verbatim>\<open>?\<close> or \<^verbatim>\<open>#\<close> (the
  whole URL is the path when there is neither), resolves the path portion against the
  directory of the template to get the input path, joins the basename of the path
  portion under the public path (the URL constructor when the public path contains
  \<^verbatim>\<open>://\<close>, \<^verbatim>\<open>path.join\<close> otherwise, the bare basename when the public path is undefined
  or empty), and appends the suffix unchanged.  The call throws only when the URL
  constructor does.
\<close>

theorem rebaseAssetURL_splits_joins_reattaches:
  "rebaseAssetURL P inputURL templatePath pubPath =
     (case (case pubPath of
              None \<Rightarrow> Some (path_basename P (pathPortion inputURL))
            | Some pp \<Rightarrow>
                if pp = [] then Some (path_basename P (pathPortion inputURL))
                else if str_includes pp ''://''
                     then url_href P (path_basename P (pathPortion inputURL)) pp
                     else Some (path_join P pp (path_basename P (pathPortion inputURL)))) of
        None \<Rightarrow> Inl InvalidURL
      | Some joined \<Rightarrow>
          Inr \<lparr>basename = path_basename P (pathPortion inputURL),
               rebasedURL = joined @ urlSuffix inputURL,
               inputPath = path_resolve P (path_dirname P templatePath) (pathPortion inputURL)\<rparr>)"
  by (rule rebaseAssetURL_eq)

theorem rebaseAssetURL_splits_joins_reattaches_witness:
  "rebaseAssetURL posix_ops ''img/cat.png#a?b'' ''/site/index.html'' (Some ''/public'')
     = Inr \<lparr>basename = ''cat.png'', rebasedURL = ''/public/cat.png#a?b'',
            inputPath = ''/site/img/cat.png''\<rparr> \<and>
   rebaseAssetURL posix_ops ''cat.png?v=1#x'' ''/site/index.html''
       (Some ''https://cdn.example.com/'')
     = Inr \<lparr>basename = ''cat.png'', rebasedURL = ''https://cdn.example.com/cat.png?v=1#x'',
            inputPath = ''/site/cat.png''\<rparr> \<and>
   rebaseAssetURL posix_ops ''img/cat.png'' ''/site/index.html'' None
     = Inr \<lparr>basename = ''cat.png'', rebasedURL = ''cat.png'',
            inputPath = ''/site/img/cat.png''\<rparr>"
  by (simp add: rebaseAssetURL_splits_joins_reattaches pathPortion_def urlSuffix_def
      posix_defs str_includes_def indexOf_def)

section \<open>Properties of a pass and of runs\<close>

lemma set_newSet: "set (newSet xs) = set xs"
  by (simp add: newSet_def)

lemma addOutputs_props:
  "addOutputs cur cache m = (cache', m') \<Longrightarrow>
     set cache' = set cache \<union> set cur \<and>
     (m' \<longleftrightarrow> m \<or> \<not> set cur \<subseteq> set cache) \<and>
     (set cur \<subseteq> set cache \<longrightarrow> cache' = cache)"
proof (induction cur arbitrary: cache m)
  case Nil
  then show ?case by simp
next
  case (Cons out rest)
  show ?case
  proof (cases "out \<in> set cache")
    case True
    with Cons.prems have "addOutputs rest cache m = (cache', m')" by simp
    from Cons.IH [OF this] True show ?thesis by auto
  next
    case False
    with Cons.prems have "addOutputs rest (cache @ [out]) True = (cache', m')" by simp
    from Cons.IH [OF this] False show ?thesis by auto
  qed
qed

lemma deleteOutputs_props:
  "deleteOutputs xs cur m = (kept, m') \<Longrightarrow>
     kept = filter (\<lambda>x. x \<in> set cur) xs \<and> (m' \<longleftrightarrow> m \<or> \<not> set xs \<subseteq> set cur)"
proof (induction xs arbitrary: m kept)
  case Nil
  then show ?case by simp
next
  case (Cons out rest)
  show ?case
  proof (cases "out \<in> set cur")
    case True
    obtain k where r: "deleteOutputs rest cur m = (k, m')" and k: "kept = out # k"
      using Cons.prems True by (auto split: prod.splits)
    from Cons.IH [OF r] True k show ?thesis by auto
  next
    case False
    with Cons.prems have "deleteOutputs rest cur True = (kept, m')" by simp
    from Cons.IH [OF this] False show ?thesis by auto
  qed
qed

lemma detectChanges_props:
  assumes "detectChanges cache css js = (cache', modified)"
  shows "set cache' = set (css @ js)"
    and "modified \<longleftrightarrow> set cache \<noteq> set (css @ js)"
    and "\<not> modified \<Longrightarrow> cache' = cache"
proof -
  let ?cur = "newSet (css @ js)"
  obtain cache1 m1 where a: "addOutputs ?cur cache False = (cache1, m1)"
    by (cases "addOutputs ?cur cache False") auto
  with assms have d: "deleteOutputs cache1 ?cur m1 = (cache', modified)"
    by (simp add: detectChanges_def)
  note A = addOutputs_props [OF a] and D = deleteOutputs_props [OF d]
  have cur: "set ?cur = set (css @ js)" by (rule set_newSet)
  from A D cur show "set cache' = set (css @ js)" by auto
  from A D cur show m: "modified \<longleftrightarrow> set cache \<noteq> set (css @ js)" by auto
  show "cache' = cache" if "\<not> modified"
  proof -
    from that m cur have eq: "set cache = set ?cur" by simp
    with A have "cache1 = cache" by simp
    with D eq show ?thesis by simp
  qed
qed

lemma rebaseAssetURL_error: "rebaseAssetURL P u tp pp = Inl e \<Longrightarrow> e = InvalidURL"
  by (auto simp: rebaseAssetURL_def Let_def split: option.splits if_splits)

lemma rebaseTag_error: "rebaseTag P tp pp out n = Inl e \<Longrightarrow> e = InvalidURL"
  by (auto simp: rebaseTag_def split: option.splits if_splits sum.splits
      dest: rebaseAssetURL_error)

lemma rebaseTags_error: "rebaseTags P tp pp out name cs = Inl e \<Longrightarrow> e = InvalidURL"
  by (induction cs arbitrary: e)
     (auto split: if_splits sum.splits prod.splits dest: rebaseTag_error)

lemma rebaseStyleURLs_error:
  "rebaseStyleURLs P tp pp out urls v = Inl e \<Longrightarrow> e = InvalidURL"
  by (induction urls arbitrary: v e)
     (auto split: if_splits sum.splits prod.splits dest: rebaseAssetURL_error)

lemma rebaseStyle_error: "rebaseStyle P tp pp out n = Inl e \<Longrightarrow> e = InvalidURL"
  by (auto simp: rebaseStyle_def rebaseStyleText_def
      split: option.splits sum.splits prod.splits node.splits dest: rebaseStyleURLs_error)

lemma rebaseStyles_error: "rebaseStyles P tp pp out cs = Inl e \<Longrightarrow> e = InvalidURL"
  by (induction cs arbitrary: e)
     (auto split: if_splits sum.splits prod.splits dest: rebaseStyle_error)

lemma discoverAssets_error:
  "discoverAssets P ign tp pp out hs bs = Inl e \<Longrightarrow> e = InvalidURL"
  by (auto simp: discoverAssets_def split: if_splits sum.splits prod.splits
      dest: rebaseTags_error rebaseStyles_error)

lemma integrity_attr_error: "integrity_attr fs p alg = Inl e \<Longrightarrow> e = IOError"
  by (auto simp: integrity_attr_def calculateIntegrityHash_def split: option.splits)

lemma createLinkElement_error: "createLinkElement P fs opts = Inl e \<Longrightarrow> e = IOError"
  by (auto simp: createLinkElement_def Let_def split: sum.splits dest: integrity_attr_error)

lemma createScriptElement_error: "createScriptElement P fs opts = Inl e \<Longrightarrow> e = IOError"
  by (auto simp: createScriptElement_def Let_def split: sum.splits dest: integrity_attr_error)

lemma promiseAll_error:
  "promiseAll (map f xs) = Inl e \<Longrightarrow> (\<And>x e. f x = Inl e \<Longrightarrow> e = IOError) \<Longrightarrow> e = IOError"
  by (induction xs) (auto split: sum.splits)

text \<open>Asset discovery does not depend on the build result, on the file system or on
  the state: it fails in every pass of a plugin or in none.\<close>

definition discoveryFails ::
  "path_ops \<Rightarrow> (string \<Rightarrow> node list) \<Rightarrow> HtmlPluginOptions \<Rightarrow> Handler \<Rightarrow> bool" where
  "discoveryFails P parse options h =
     (case prepareDocument (parse (h_templateContent h)) of
        (docCs, html, htmlCs, head, body) \<Rightarrow>
          isl (discoverAssets P (opt_ignoreAssets options = Some True) (h_templatePath h)
                 (h_publicPath h) (h_absOutDir h) (childNodes head) (childNodes body)))"

lemma onEnd_cases:
  obtains
    (discovery_failed) "discoveryFails P parse options h"
      "onEnd P parse fs options h st (Some keys) = (st, [], Inl InvalidURL)"
  | (unmodified) "\<not> discoveryFails P parse options h"
      "set (passOutputs P h (Some keys)) = set (outputCache st)"
      "onEnd P parse fs options h st (Some keys) = (st, [], Inr None)"
  | (modified) st' ops r where
      "\<not> discoveryFails P parse options h"
      "set (passOutputs P h (Some keys)) \<noteq> set (outputCache st)"
      "onEnd P parse fs options h st (Some keys) = (st', ops, r)"
      "set (outputCache st') = set (passOutputs P h (Some keys))"
      "r = Inl IOError \<or> completedEmission r"
proof -
  obtain docCs html htmlCs head body where
    prep: "prepareDocument (parse (h_templateContent h)) = (docCs, html, htmlCs, head, body)"
    by (cases "prepareDocument (parse (h_templateContent h))") auto
  let ?disc = "discoverAssets P (opt_ignoreAssets options = Some True) (h_templatePath h)
                  (h_publicPath h) (h_absOutDir h) (childNodes head) (childNodes body)"
  let ?css = "cssOutput P (h_entries h) keys"
  let ?js = "jsOutput P (h_entries h) keys"
  show ?thesis
  proof (cases ?disc)
    case (Inl e)
    then have "e = InvalidURL" by (rule discoverAssets_error)
    with Inl prep have "onEnd P parse fs options h st (Some keys) = (st, [], Inl InvalidURL)"
      by (simp add: onEnd_def)
    moreover from Inl prep have "discoveryFails P parse options h"
      by (simp add: discoveryFails_def)
    ultimately show ?thesis by (intro discovery_failed)
  next
    case (Inr found)
    obtain headCs bodyCs assets where f: "found = (headCs, bodyCs, assets)"
      by (cases found) auto
    from Inr prep have nf: "\<not> discoveryFails P parse options h"
      by (simp add: discoveryFails_def)
    obtain cache modified where
      dc: "detectChanges (outputCache st) ?css ?js = (cache, modified)"
      by (cases "detectChanges (outputCache st) ?css ?js") auto
    note D = detectChanges_props [OF dc]
    show ?thesis
    proof (cases modified)
      case False
      with D have c: "cache = outputCache st"
        and eq: "set (passOutputs P h (Some keys)) = set (outputCache st)"
        by (simp_all add: passOutputs_def)
      from Inr f prep dc False c
      have "onEnd P parse fs options h st (Some keys) = (st, [], Inr None)"
        by (simp add: onEnd_def)
      with nf eq show ?thesis by (intro unmodified)
    next
      case True
      with D have ne: "set (passOutputs P h (Some keys)) \<noteq> set (outputCache st)"
        by (auto simp add: passOutputs_def)
      from D have sc: "set cache = set (passOutputs P h (Some keys))"
        by (simp add: passOutputs_def)
      let ?st1 = "st\<lparr>outputCache := cache\<rparr>"
      let ?links = "promiseAll (map (\<lambda>filePath.
                      createLinkElement P fs (elementOptions options h filePath)) ?css)"
      let ?scripts = "promiseAll (map (\<lambda>filePath.
                      createScriptElement P fs (elementOptions options h filePath)) ?js)"
      show ?thesis
      proof (cases ?links)
        case (Inl e)
        then have "e = IOError"
          by (rule promiseAll_error) (rule createLinkElement_error)
        with Inl Inr f prep dc True
        have "onEnd P parse fs options h st (Some keys)
                = (?st1, hashReads P options h ?css, Inl IOError)"
          by (simp add: onEnd_def)
        then show ?thesis by (rule modified [OF nf ne]) (simp_all add: sc)
      next
        case l: (Inr links)
        show ?thesis
        proof (cases ?scripts)
          case (Inl e)
          then have "e = IOError"
            by (rule promiseAll_error) (rule createScriptElement_error)
          with Inl l Inr f prep dc True
          have "onEnd P parse fs options h st (Some keys)
                  = (?st1, hashReads P options h ?css @ hashReads P options h ?js, Inl IOError)"
            by (simp add: onEnd_def)
          then show ?thesis by (rule modified [OF nf ne]) (simp_all add: sc)
        next
          case s: (Inr scripts)
          obtain st' ops r where
            res: "onEnd P parse fs options h st (Some keys) = (st', ops, r)"
            by (cases "onEnd P parse fs options h st (Some keys)") auto
          from res Inr f prep dc True l s
          have "outputCache st' = cache \<and> (r = Inl IOError \<or> completedEmission r)"
            by (auto simp add: onEnd_def Let_def split: prod.splits if_splits)
          with res sc show ?thesis by (intro modified [OF nf ne res]) simp_all
        qed
      qed
    qed
  qed
qed

text \<open>
  Claim C1.  A pass whose matched CSS and JS outputs are, as a set, the output cache
  issues no file operation (no HTML write, no asset copy, no read for a hash), leaves the
  state as it is and produces no document: it returns before tag synthesis, or it threw
  in asset discovery before.  And when a pass is followed by a pass with the same set of
  matched outputs, the second pass issues no file operation and produces no document,
  whatever the first pass did and whatever the file system does in either pass.
\<close>

theorem unchanged_outputs_skip_emission:
  "(set (passOutputs P h (Some keys)) = set (outputCache st) \<longrightarrow>
      onEnd P parse fs options h st (Some keys)
        \<in> {(st, [], Inr None), (st, [], Inl InvalidURL)}) \<and>
   (onEnd P parse fs1 options h st0 (Some keys1) = (st1, ops1, r1) \<and>
    set (passOutputs P h (Some keys2)) = set (passOutputs P h (Some keys1)) \<longrightarrow>
      onEnd P parse fs2 options h st1 (Some keys2)
        \<in> {(st1, [], Inr None), (st1, [], Inl InvalidURL)})"
proof (intro conjI impI)
  assume "set (passOutputs P h (Some keys)) = set (outputCache st)"
  then show "onEnd P parse fs options h st (Some keys)
        \<in> {(st, [], Inr None), (st, [], Inl InvalidURL)}"
    by (cases rule: onEnd_cases [of P parse options h fs st keys]) simp_all
next
  assume a: "onEnd P parse fs1 options h st0 (Some keys1) = (st1, ops1, r1) \<and>
    set (passOutputs P h (Some keys2)) = set (passOutputs P h (Some keys1))"
  then have p1: "onEnd P parse fs1 options h st0 (Some keys1) = (st1, ops1, r1)"
    and same: "set (passOutputs P h (Some keys2)) = set (passOutputs P h (Some keys1))"
    by simp_all
  have d: "discoveryFails P parse options h \<or>
        set (passOutputs P h (Some keys2)) = set (outputCache st1)"
  proof (cases rule: onEnd_cases [of P parse options h fs1 st0 keys1])
    case discovery_failed
    then show ?thesis by simp
  next
    case unmodified
    with p1 have "st1 = st0" by simp
    with unmodified same show ?thesis by simp
  next
    case (modified st' ops r)
    with p1 have "st1 = st'" by simp
    with modified same show ?thesis by simp
  qed
  show "onEnd P parse fs2 options h st1 (Some keys2)
        \<in> {(st1, [], Inr None), (st1, [], Inl InvalidURL)}"
  proof (cases rule: onEnd_cases [of P parse options h fs2 st1 keys2])
    case discovery_failed
    then show ?thesis by simp
  next
    case unmodified
    then show ?thesis by simp
  next
    case (modified st' ops r)
    with d show ?thesis by simp
  qed
qed

lemma onEnd_detected:
  assumes p: "onEnd P parse fs options h st metafile = (st', ops, r)"
  shows "if reachedDetection r then set (outputCache st') = set (passOutputs P h metafile)
         else st' = st"
proof (cases metafile)
  case None
  with p have "st' = st" "r = Inl MetafileMissing" by (simp_all add: onEnd_def)
  then show ?thesis by (simp add: reachedDetection_def)
next
  case (Some keys)
  show ?thesis
  proof (cases rule: onEnd_cases [of P parse options h fs st keys])
    case discovery_failed
    with p Some have "st' = st" "r = Inl InvalidURL" by simp_all
    then show ?thesis by (simp add: reachedDetection_def)
  next
    case unmodified
    with p Some have "st' = st" "r = Inr None" by simp_all
    with unmodified Some show ?thesis by (simp add: reachedDetection_def)
  next
    case (modified st'' ops'' r'')
    with p Some have "st' = st''" "r = r''" by simp_all
    with modified Some have "set (outputCache st') = set (passOutputs P h metafile)"
      and "reachedDetection r"
      by (auto simp add: reachedDetection_def)
    then show ?thesis by simp
  qed
qed

lemma onEnd_completed:
  assumes p: "onEnd P parse fs options h st metafile = (st', ops, r)"
    and ok: "r \<noteq> Inl IOError"
  shows "if completedEmission r then set (outputCache st') = set (passOutputs P h metafile)
         else st' = st"
proof (cases metafile)
  case None
  with p have "st' = st" "r = Inl MetafileMissing" by (simp_all add: onEnd_def)
  then show ?thesis by simp
next
  case (Some keys)
  show ?thesis
  proof (cases rule: onEnd_cases [of P parse options h fs st keys])
    case discovery_failed
    with p Some have "st' = st" "r = Inl InvalidURL" by simp_all
    then show ?thesis by simp
  next
    case unmodified
    with p Some have "st' = st" "r = Inr None" by simp_all
    then show ?thesis by simp
  next
    case (modified st'' ops'' r'')
    with p Some have "st' = st''" "r = r''" by simp_all
    with modified Some ok have "set (outputCache st') = set (passOutputs P h metafile)"
      and "completedEmission r"
      by simp_all
    then show ?thesis by simp
  qed
qed

lemma run_detected:
  "set s = set (outputCache st) \<Longrightarrow>
   set (outputCache (fst (run P parse options h st passes))) =
     set (lastOutputs P h reachedDetection s (snd (run P parse options h st passes)))"
proof (induction passes arbitrary: st s)
  case Nil
  then show ?case by simp
next
  case (Cons i rest)
  obtain st' ops r where
    p: "onEnd P parse (pass_fs i) options h st (pass_metafile i) = (st', ops, r)"
    by (cases "onEnd P parse (pass_fs i) options h st (pass_metafile i)") auto
  let ?s' = "if reachedDetection r then passOutputs P h (pass_metafile i) else s"
  from onEnd_detected [OF p] Cons.prems have "set ?s' = set (outputCache st')"
    by (auto split: if_splits)
  from Cons.IH [OF this] p show ?case
    by (auto split: prod.splits)
qed

lemma run_completed:
  "set s = set (outputCache st) \<Longrightarrow>
   noEmissionFailed (snd (run P parse options h st passes)) \<Longrightarrow>
   set (outputCache (fst (run P parse options h st passes))) =
     set (lastOutputs P h completedEmission s (snd (run P parse options h st passes)))"
proof (induction passes arbitrary: st s)
  case Nil
  then show ?case by simp
next
  case (Cons i rest)
  obtain st' ops r where
    p: "onEnd P parse (pass_fs i) options h st (pass_metafile i) = (st', ops, r)"
    by (cases "onEnd P parse (pass_fs i) options h st (pass_metafile i)") auto
  from Cons.prems(2) p have ok: "r \<noteq> Inl IOError"
    and rest: "noEmissionFailed (snd (run P parse options h st' rest))"
    by (simp_all add: noEmissionFailed_def split: prod.splits)
  let ?s' = "if completedEmission r then passOutputs P h (pass_metafile i) else s"
  from onEnd_completed [OF p ok] Cons.prems(1) have "set ?s' = set (outputCache st')"
    by (auto split: if_splits)
  from Cons.IH [OF this rest] p show ?case
    by (auto split: prod.splits)
qed

text \<open>
  Claim C4, amended.  The claim says that the cache always holds the outputs of the most
  recent completed emission, also after a pass whose emission did not complete.  The
  code updates the cache in change detection, before it emits.  So after every run the
  cache holds, as a set, the matched outputs of the most recent pass that reached change
  detection, whether or not the emission of that pass completed (the outputs cached
  before the run when no pass reached it); and when no pass of a run from the initial
  state failed in emission, that set is the set of outputs of the most recent completed
  emission.
\<close>

theorem cache_reflects_last_detection:
  "set (outputCache (fst (run P parse options h st passes))) =
     set (lastOutputs P h reachedDetection (outputCache st)
            (snd (run P parse options h st passes))) \<and>
   (noEmissionFailed (snd (run P parse options h initial_state passes)) \<longrightarrow>
      set (outputCache (fst (run P parse options h initial_state passes))) =
        set (lastOutputs P h completedEmission []
               (snd (run P parse options h initial_state passes))))"
  using run_detected [of "outputCache st" st P parse options h passes]
    run_completed [of "[]" initial_state P parse options h passes]
  by (simp add: initial_state_def)

text \<open>The claim fails after a failed emission: the first pass cannot write the HTML
  file and throws, yet the cache holds its output; the second pass, with the same output
  and a working file system, finds nothing changed and returns without emitting.  No
  emission has completed, and the cache is not empty.\<close>

theorem cache_after_failed_emission_counterexample:
  "outputCache (fst (run posix_ops sample_parse sample_options sample_handler initial_state
       [\<lparr>pass_fs = readonly_fs, pass_metafile = Some [''dist/main.js'']\<rparr>,
        \<lparr>pass_fs = sample_fs, pass_metafile = Some [''dist/main.js'']\<rparr>]))
     = [''dist/main.js''] \<and>
   map snd (snd (run posix_ops sample_parse sample_options sample_handler initial_state
       [\<lparr>pass_fs = readonly_fs, pass_metafile = Some [''dist/main.js'']\<rparr>,
        \<lparr>pass_fs = sample_fs, pass_metafile = Some [''dist/main.js'']\<rparr>]))
     = [Inl IOError, Inr None] \<and>
   lastOutputs posix_ops sample_handler completedEmission []
     (snd (run posix_ops sample_parse sample_options sample_handler initial_state
       [\<lparr>pass_fs = readonly_fs, pass_metafile = Some [''dist/main.js'']\<rparr>,
        \<lparr>pass_fs = sample_fs, pass_metafile = Some [''dist/main.js'']\<rparr>]))
     = []"
  by code_simp

text \<open>
  Claim C9, amended.  The check for entry points comes first: when the output directory
  is absent (undefined or empty) and the build has entry points, the set-up function
  throws the configuration error and issues no file operation; when the build has no
  entry points, it returns without an error and without a file operation.
\<close>

theorem missing_outdir_is_fatal_with_entry_points:
  assumes "outdir initialOptions = None \<or> outdir initialOptions = Some []"
  shows "pluginSetup P fs cwd options initialOptions =
           (if entryPoints initialOptions = None then ([], Inr None)
            else ([], Inl OutdirRequired))"
  using assms by (auto simp add: pluginSetup_def Let_def split: option.splits)

theorem missing_outdir_is_fatal_with_entry_points_witness:
  "pluginSetup posix_ops sample_fs ''/proj'' sample_options
     \<lparr>absWorkingDir = None, entryPoints = Some (EntryArray [''src/main.ts'']),
      format = Some ''esm'', build_publicPath = None, outdir = None\<rparr>
   = ([], Inl OutdirRequired)"
  using missing_outdir_is_fatal_with_entry_points
    [of "\<lparr>absWorkingDir = None, entryPoints = Some (EntryArray [''src/main.ts'']),
      format = Some ''esm'', build_publicPath = None, outdir = None\<rparr>"
      posix_ops sample_fs "''/proj''" sample_options]
  by simp

text \<open>The claim fails for a build without entry points: the output directory is absent
  and no error is raised.\<close>

theorem missing_outdir_without_entry_points_counterexample:
  "pluginSetup posix_ops sample_fs ''/proj'' sample_options
     \<lparr>absWorkingDir = None, entryPoints = None,
      format = Some ''esm'', build_publicPath = None, outdir = None\<rparr>
   = ([], Inr None)"
  by (simp add: pluginSetup_def)

theorem unchanged_outputs_skip_emission_witness:
  "completedEmission (snd (snd (onEnd posix_ops sample_parse sample_fs sample_options
      sample_handler initial_state (Some [''dist/main.js''])))) \<and>
   outputCache (fst (onEnd posix_ops sample_parse sample_fs sample_options
      sample_handler initial_state (Some [''dist/main.js'']))) = [''dist/main.js''] \<and>
   snd (onEnd posix_ops sample_parse sample_fs sample_options sample_handler
      (fst (onEnd posix_ops sample_parse sample_fs sample_options
         sample_handler initial_state (Some [''dist/main.js''])))
      (Some [''dist/main.js''])) = ([], Inr None)"
proof -
  let ?p1 = "onEnd posix_ops sample_parse sample_fs sample_options
      sample_handler initial_state (Some [''dist/main.js''])"
  let ?p2 = "onEnd posix_ops sample_parse sample_fs sample_options sample_handler
      (fst ?p1) (Some [''dist/main.js''])"
  have c: "completedEmission (snd (snd ?p1))" by code_simp
  have o: "outputCache (fst ?p1) = [''dist/main.js'']" by code_simp
  have s: "set (passOutputs posix_ops sample_handler (Some [''dist/main.js'']))
             = set (outputCache (fst ?p1))"
    unfolding o by code_simp
  have r: "snd (snd ?p2) \<noteq> Inl InvalidURL" by code_simp
  have e: "?p1 = (fst ?p1, fst (snd ?p1), snd (snd ?p1))" by simp
  from unchanged_outputs_skip_emission
    [of posix_ops sample_handler "[''dist/main.js'']" "fst ?p1" sample_parse sample_fs
       sample_options sample_fs initial_state "[''dist/main.js'']" "fst ?p1"
       "fst (snd ?p1)" "snd (snd ?p1)" "[''dist/main.js'']" sample_fs]
    s e r
  have "snd ?p2 = ([], Inr None)" by auto
  with c o show ?thesis by simp
qed

theorem cache_reflects_last_detection_witness:
  "noEmissionFailed (snd (run posix_ops sample_parse sample_options sample_handler initial_state
       [\<lparr>pass_fs = sample_fs, pass_metafile = Some [''dist/main.js'']\<rparr>,
        \<lparr>pass_fs = sample_fs, pass_metafile = Some [''dist/main.js'', ''dist/main.css'']\<rparr>,
        \<lparr>pass_fs = sample_fs, pass_metafile = None\<rparr>])) \<and>
   set (outputCache (fst (run posix_ops sample_parse sample_options sample_handler initial_state
       [\<lparr>pass_fs = sample_fs, pass_metafile = Some [''dist/main.js'']\<rparr>,
        \<lparr>pass_fs = sample_fs, pass_metafile = Some [''dist/main.js'', ''dist/main.css'']\<rparr>,
        \<lparr>pass_fs = sample_fs, pass_metafile = None\<rparr>])))
     = {''dist/main.js'', ''dist/main.css''} \<and>
   lastOutputs posix_ops sample_handler completedEmission []
     (snd (run posix_ops sample_parse sample_options sample_handler initial_state
       [\<lparr>pass_fs = sample_fs, pass_metafile = Some [''dist/main.js'']\<rparr>,
        \<lparr>pass_fs = sample_fs, pass_metafile = Some [''dist/main.js'', ''dist/main.css'']\<rparr>,
        \<lparr>pass_fs = sample_fs, pass_metafile = None\<rparr>]))
     = [''dist/main.css'', ''dist/main.js'']"
proof -
  let ?passes = "[\<lparr>pass_fs = sample_fs, pass_metafile = Some [''dist/main.js'']\<rparr>,
        \<lparr>pass_fs = sample_fs, pass_metafile = Some [''dist/main.js'', ''dist/main.css'']\<rparr>,
        \<lparr>pass_fs = sample_fs, pass_metafile = None\<rparr>]"
  let ?run = "run posix_ops sample_parse sample_options sample_handler initial_state ?passes"
  have n: "noEmissionFailed (snd ?run)" by code_simp
  have l: "lastOutputs posix_ops sample_handler completedEmission [] (snd ?run)
             = [''dist/main.css'', ''dist/main.js'']" by code_simp
  from cache_reflects_last_detection
    [of posix_ops sample_parse sample_options sample_handler initial_state ?passes] n
  have "set (outputCache (fst ?run)) =
          set (lastOutputs posix_ops sample_handler completedEmission [] (snd ?run))"
    by blast
  with n l show ?thesis by auto
qed

section \<open>Properties of asset discovery\<close>

lemma rebaseAssetURL_paths:
  assumes "rebaseAssetURL P u tp pp = Inr r"
  shows "(inputPath r, path_resolve P out (basename r)) = localAsset P tp out u"
  using assms unfolding rebaseAssetURL_eq localAsset_def
  by (auto split: option.splits if_splits)

lemma rebaseStyleURLs_props:
  "rebaseStyleURLs P tp pp out urls v = Inr (v', assets) \<Longrightarrow>
     assets = map (localAsset P tp out)
                (filter (\<lambda>u. u \<noteq> [] \<and> \<not> isAbsoluteOrURL P u) urls) \<and>
     (filter (\<lambda>u. u \<noteq> [] \<and> \<not> isAbsoluteOrURL P u) urls = [] \<longrightarrow> v' = v)"
proof (induction urls arbitrary: v assets)
  case Nil
  then show ?case by simp
next
  case (Cons url urls)
  show ?case
  proof (cases "url = [] \<or> isAbsoluteOrURL P url")
    case True
    with Cons.prems have "rebaseStyleURLs P tp pp out urls v = Inr (v', assets)" by auto
    from Cons.IH [OF this] True show ?thesis by auto
  next
    case False
    with Cons.prems obtain r rest where
      r: "rebaseAssetURL P url tp pp = Inr r"
      and rec: "rebaseStyleURLs P tp pp out urls (replace v url (rebasedURL r)) = Inr (v', rest)"
      and a: "assets = (inputPath r, path_resolve P out (basename r)) # rest"
      by (auto split: sum.splits prod.splits)
    from Cons.IH [OF rec] False a rebaseAssetURL_paths [OF r, of out]
    show ?thesis by simp
  qed
qed

lemma find_setUrlValue:
  "find isUrlAttr as = Some a \<Longrightarrow>
     find isUrlAttr (setUrlValue as v) = Some (a\<lparr>attr_value := v\<rparr>)"
  by (induction as) (auto simp add: isUrlAttr_def)

lemma tagUrl_setUrl:
  assumes "tagUrl n = Some u"
  shows "tagUrl (setUrl n v) = Some v"
proof (cases n)
  case (Element t as cs)
  with assms obtain a where e: "isElement (Some n)" and f: "find isUrlAttr as = Some a"
    by (auto simp add: tagUrl_def getUrl_def split: if_splits)
  from e Element have "isElement (Some (Element t (setUrlValue as v) cs))" by simp
  with find_setUrlValue [OF f, of v] Element show ?thesis
    by (simp add: tagUrl_def getUrl_def)
next
  case (TextNode s)
  with assms show ?thesis by (simp add: tagUrl_def getUrl_def)
next
  case (CommentNode s)
  with assms show ?thesis by (simp add: tagUrl_def getUrl_def)
next
  case (DocumentType a b c)
  with assms show ?thesis by (simp add: tagUrl_def getUrl_def)
qed

lemma rebaseTag_props:
  assumes t: "rebaseTag P tp pp out n = Inr (n', found)" and name: "nodeName n = name"
  shows "rebasedTag P tp pp name n n'"
    and "found = map (localAsset P tp out)
                   (filter (\<lambda>u. \<not> isAbsoluteOrURL P u) (List.map_filter tagUrl [n]))"
proof -
  show "found = map (localAsset P tp out)
                   (filter (\<lambda>u. \<not> isAbsoluteOrURL P u) (List.map_filter tagUrl [n]))"
    using t
    by (auto simp add: rebaseTag_def tagUrl_def List.map_filter_simps
        split: option.splits if_splits sum.splits dest: rebaseAssetURL_paths)
  show "rebasedTag P tp pp name n n'"
  proof (cases "tagUrl n")
    case None
    with t show ?thesis
      by (auto simp add: rebasedTag_def localTag_def rebaseTag_def tagUrl_def
          split: option.splits)
  next
    case (Some u)
    then obtain a where g: "getUrl n = Some a" and u: "u = attr_value a"
      by (auto simp add: tagUrl_def)
    show ?thesis
    proof (cases "isAbsoluteOrURL P u")
      case True
      with t g u Some show ?thesis
        by (simp add: rebasedTag_def localTag_def rebaseTag_def)
    next
      case False
      with t g u obtain r where r: "rebaseAssetURL P u tp pp = Inr r"
        and n': "n' = setUrl n (rebasedURL r)"
        by (auto simp add: rebaseTag_def split: sum.splits)
      from tagUrl_setUrl [OF Some, of "rebasedURL r"] n'
      have "tagUrl n' = Some (rebasedURL r)" by simp
      with False Some name r n' show ?thesis
        by (simp add: rebasedTag_def localTag_def)
    qed
  qed
qed

lemma skipTag_not_local: "skipTag P name n \<Longrightarrow> \<not> localTag P name n"
  by (auto simp add: skipTag_def localTag_def split: option.splits)

lemma rebaseTags_props:
  "rebaseTags P tp pp out name cs = Inr (cs', assets) \<Longrightarrow>
     list_all2 (rebasedTag P tp pp name) cs cs' \<and>
     assets = map (localAsset P tp out) (localTagUrls P name cs)"
proof (induction cs arbitrary: cs' assets)
  case Nil
  then show ?case by (simp add: localTagUrls_def List.map_filter_simps)
next
  case (Cons n ns)
  show ?case
  proof (cases "nodeName n = name")
    case False
    with Cons.prems obtain ns' where
      rec: "rebaseTags P tp pp out name ns = Inr (ns', assets)" and c: "cs' = n # ns'"
      by (auto split: sum.splits prod.splits)
    from False have "rebasedTag P tp pp name n n"
      by (simp add: rebasedTag_def localTag_def)
    with Cons.IH [OF rec] False c show ?thesis
      by (simp add: localTagUrls_def)
  next
    case True
    with Cons.prems obtain n' found ns' rest where
      t: "rebaseTag P tp pp out n = Inr (n', found)"
      and rec: "rebaseTags P tp pp out name ns = Inr (ns', rest)"
      and c: "cs' = n' # ns'" and a: "assets = found @ rest"
      by (auto split: sum.splits prod.splits)
    from rebaseTag_props [OF t True] Cons.IH [OF rec] True c a show ?thesis
      by (simp add: localTagUrls_def List.map_filter_simps split: option.splits)
  qed
qed

text \<open>
  Claim C7, amended.  A URL that is an absolute path, contains \<^verbatim>\<open>://\<close> or starts with
  \<^verbatim>\<open>data:\<close> is classified as skip: no pair is queued for it, and a candidate tag
  that holds it comes out of the loop unchanged.  Every
  other URL of a candidate tag is local: the tag comes out with its \<open>href\<close> or \<open>src\<close>
  attribute set to the rebased URL and otherwise unchanged, and the pairs queued by a
  loop over the tags are exactly the pairs of the local URLs of the tags it visits, in
  order.  In a style text the local URLs are the other URLs that are not empty: the
  pairs queued are exactly theirs, in order, and a text without local URLs is left
  unchanged.  How the text is rewritten for a local URL is not part of this statement.
\<close>

theorem skip_urls_left_alone_local_urls_rebased:
  assumes "rebaseTags P templatePath pubPath absOutDir name cs = Inr (cs', assets)"
    and "rebaseStyleText P templatePath pubPath absOutDir v = Inr (v', assets')"
  shows "list_all2 (\<lambda>n n'. skipTag P name n \<longrightarrow> n' = n) cs cs' \<and>
         list_all2 (rebasedTag P templatePath pubPath name) cs cs' \<and>
         assets = map (localAsset P templatePath absOutDir) (localTagUrls P name cs) \<and>
         assets' = map (localAsset P templatePath absOutDir) (localStyleUrls P v) \<and>
         (localStyleUrls P v = [] \<longrightarrow> v' = v)"
proof -
  from rebaseTags_props [OF assms(1)]
  have r: "list_all2 (rebasedTag P templatePath pubPath name) cs cs'"
    and a: "assets = map (localAsset P templatePath absOutDir) (localTagUrls P name cs)"
    by simp_all
  have "\<And>n n'. rebasedTag P templatePath pubPath name n n' \<Longrightarrow> skipTag P name n \<longrightarrow> n' = n"
    by (auto simp add: rebasedTag_def dest: skipTag_not_local)
  with r have "list_all2 (\<lambda>n n'. skipTag P name n \<longrightarrow> n' = n) cs cs'"
    by (rule list_all2_mono)
  with r a rebaseStyleURLs_props [OF assms(2) [unfolded rebaseStyleText_def]]
  show ?thesis by (simp add: localStyleUrls_def)
qed

theorem skip_urls_left_alone_local_urls_rebased_witness:
  "rebaseTags posix_ops ''/proj/src/index.html'' (Some ''/public'') ''/proj/dist'' ''link''
     [Element ''link'' [\<lparr>attr_name = ''rel'', attr_value = ''stylesheet''\<rparr>,
                        \<lparr>attr_name = ''href'', attr_value = ''https://cdn.example.com/a.css''\<rparr>] [],
      Element ''link'' [\<lparr>attr_name = ''rel'', attr_value = ''icon''\<rparr>,
                        \<lparr>attr_name = ''href'', attr_value = ''img/favicon.png?v=2''\<rparr>] [],
      Element ''meta'' [] []]
   = Inr ([Element ''link'' [\<lparr>attr_name = ''rel'', attr_value = ''stylesheet''\<rparr>,
                        \<lparr>attr_name = ''href'', attr_value = ''https://cdn.example.com/a.css''\<rparr>] [],
           Element ''link'' [\<lparr>attr_name = ''rel'', attr_value = ''icon''\<rparr>,
                        \<lparr>attr_name = ''href'', attr_value = ''/public/favicon.png?v=2''\<rparr>] [],
           Element ''meta'' [] []],
          [(''/proj/src/img/favicon.png'', ''/proj/dist/favicon.png'')]) \<and>
   skipTag posix_ops ''link''
     (Element ''link'' [\<lparr>attr_name = ''rel'', attr_value = ''stylesheet''\<rparr>,
                        \<lparr>attr_name = ''href'', attr_value = ''https://cdn.example.com/a.css''\<rparr>] []) \<and>
   localTag posix_ops ''link''
     (Element ''link'' [\<lparr>attr_name = ''rel'', attr_value = ''icon''\<rparr>,
                        \<lparr>attr_name = ''href'', attr_value = ''img/favicon.png?v=2''\<rparr>] []) \<and>
   rebaseStyleText posix_ops ''/proj/src/index.html'' (Some ''/public'') ''/proj/dist''
     ''a{b:url(data:image/png;base64,AAAA)}c{d:url(img/x.png)}''
   = Inr (''a{b:url(data:image/png;base64,AAAA)}c{d:url(/public/x.png)}'',
          [(''/proj/src/img/x.png'', ''/proj/dist/x.png'')]) \<and>
   localStyleUrls posix_ops ''a{b:url(data:image/png;base64,AAAA)}c{d:url(img/x.png)}''
   = [''img/x.png''] \<and>
   localStyleUrls posix_ops ''a{b:url(data:image/png;base64,AAAA)}c{d:url(http://h/x.png)}''
   = [] \<and>
   rebaseStyleText posix_ops ''/proj/src/index.html'' (Some ''/public'') ''/proj/dist''
     ''a{b:url(data:image/png;base64,AAAA)}c{d:url(http://h/x.png)}''
   = Inr (''a{b:url(data:image/png;base64,AAAA)}c{d:url(http://h/x.png)}'', [])"
proof -
  let ?skip = "Element ''link'' [\<lparr>attr_name = ''rel'', attr_value = ''stylesheet''\<rparr>,
                        \<lparr>attr_name = ''href'', attr_value = ''https://cdn.example.com/a.css''\<rparr>] []"
  let ?local = "Element ''link'' [\<lparr>attr_name = ''rel'', attr_value = ''icon''\<rparr>,
                        \<lparr>attr_name = ''href'', attr_value = ''img/favicon.png?v=2''\<rparr>] []"
  let ?local' = "Element ''link'' [\<lparr>attr_name = ''rel'', attr_value = ''icon''\<rparr>,
                        \<lparr>attr_name = ''href'', attr_value = ''/public/favicon.png?v=2''\<rparr>] []"
  let ?cs = "[?skip, ?local, Element ''meta'' [] []]"
  let ?cs' = "[?skip, ?local', Element ''meta'' [] []]"
  let ?v = "''a{b:url(data:image/png;base64,AAAA)}c{d:url(img/x.png)}''"
  let ?w = "''a{b:url(data:image/png;base64,AAAA)}c{d:url(http://h/x.png)}''"
  have t: "rebaseTags posix_ops ''/proj/src/index.html'' (Some ''/public'') ''/proj/dist''
             ''link'' ?cs
           = Inr (?cs', [(''/proj/src/img/favicon.png'', ''/proj/dist/favicon.png'')])"
    by code_simp
  have s: "rebaseStyleText posix_ops ''/proj/src/index.html'' (Some ''/public'') ''/proj/dist'' ?v
           = Inr (''a{b:url(data:image/png;base64,AAAA)}c{d:url(/public/x.png)}'',
                  [(''/proj/src/img/x.png'', ''/proj/dist/x.png'')])"
    by code_simp
  have "\<not> isl (rebaseStyleText posix_ops ''/proj/src/index.html'' (Some ''/public'')
      ''/proj/dist'' ?w)"
    by code_simp
  then obtain w' ws where
    w: "rebaseStyleText posix_ops ''/proj/src/index.html'' (Some ''/public'') ''/proj/dist'' ?w
          = Inr (w', ws)"
    by (cases "rebaseStyleText posix_ops ''/proj/src/index.html'' (Some ''/public'')
      ''/proj/dist'' ?w") auto
  have k: "skipTag posix_ops ''link'' ?skip" by code_simp
  have l: "localTag posix_ops ''link'' ?local" by code_simp
  have m: "localStyleUrls posix_ops ?v = [''img/x.png'']" by code_simp
  have n: "localStyleUrls posix_ops ?w = []" by code_simp
  from skip_urls_left_alone_local_urls_rebased [OF t w] n
  have "w' = ?w" and "ws = []" by simp_all
  with w have w2: "rebaseStyleText posix_ops ''/proj/src/index.html'' (Some ''/public'')
      ''/proj/dist'' ?w = Inr (?w, [])"
    by simp
  from skip_urls_left_alone_local_urls_rebased [OF t s] t s k l m n w2 show ?thesis by simp
qed

text \<open>The claim fails for the empty URL of a style text: the scanner returns it for
  \<^verbatim>\<open>url()\<close>, it is none of the three kinds, and the loop passes over it, so it is not
  treated as local.\<close>

theorem style_text_empty_url_not_local_counterexample:
  "\<not> isAbsoluteOrURL posix_ops [] \<and>
   parseURLs ''a{b:url()}'' = [[]] \<and>
   localStyleUrls posix_ops ''a{b:url()}'' = [] \<and>
   rebaseStyleText posix_ops ''/site/index.html'' (Some ''/public'') ''/out'' ''a{b:url()}''
   = Inr (''a{b:url()}'', [])"
  by code_simp

text \<open>
  The rewriting of a style text for a local URL is defective.  The plugin documents
  that absolute paths and URIs are ignored, and the loop over the tags leaves them as
  they are; but the loop over a style text rewrites with
  \<^verbatim>\<open>text.value.replace(url, rebasedURL)\<close>, which takes the first occurrence of the
  characters of the local URL in the whole text.  Here that occurrence lies inside the
  skipped \<^verbatim>\<open>http://h/x.png\<close>: the skipped URL is rewritten and the local \<^verbatim>\<open>x.png\<close> is
  not.
\<close>

lemma style_text_replace_rewrites_skipped_url:
  "isAbsoluteOrURL posix_ops ''http://h/x.png'' \<and>
   parseURLs ''a{b:url(http://h/x.png)}c{d:url(x.png)}'' = [''http://h/x.png'', ''x.png''] \<and>
   rebaseStyleText posix_ops ''/site/index.html'' (Some ''/public'') ''/out''
     ''a{b:url(http://h/x.png)}c{d:url(x.png)}''
   = Inr (''a{b:url(http://h//public/x.png)}c{d:url(x.png)}'',
          [(''/site/x.png'', ''/out/x.png'')])"
  by code_simp

end
